theory Spec2Isabelle
  imports Complex_Main "HOL-Library.Log_Nat" "HOL-Library.Multiset"
begin

section \<open>The JavaScript values the program computes with\<close>

subsection \<open>Numbers\<close>

text \<open>
  A JavaScript number is an IEEE 754 binary64 value. \<open>Fin q\<close> is the finite double whose
  exact value is the rational \<open>q\<close>; the two infinities and NaN are values of their own.
  The sign of zero is not modelled: the program never divides by a zero and never prints
  one through a path that tells the two zeros apart.

  \<open>toNumber x\<close> is the double nearest to the real \<open>x\<close> (round to nearest, ties to even,
  53 significant bits, exponents from -1074 to 971, overflow to an infinity): every
  arithmetic operation of the program is the exact operation followed by \<open>toNumber\<close>.
\<close>

datatype number = Fin rat | PosInf | NegInf | NaN

definition pow2 :: "int \<Rightarrow> rat" where
  "pow2 e = (if 0 \<le> e then 2 ^ nat e else 1 / 2 ^ nat (- e))"

definition ilog2 :: "rat \<Rightarrow> int" where
  \<comment> \<open>the binary exponent of a positive rational: \<open>2 ^ ilog2 x \<le> x < 2 ^ (ilog2 x + 1)\<close>\<close>
  "ilog2 x = (if 1 \<le> x then bitlen \<lfloor>x\<rfloor> - 1 else - bitlen (\<lceil>1 / x\<rceil> - 1))"

definition roundTiesToEven :: "rat \<Rightarrow> int" where
  "roundTiesToEven y =
     (let f = \<lfloor>y\<rfloor>; r = y - of_int f
      in if r < 1 / 2 then f else if 1 / 2 < r then f + 1 else if even f then f else f + 1)"

definition toNumber :: "rat \<Rightarrow> number" where
  "toNumber x =
     (if x = 0 then Fin 0
      else let e = max (ilog2 \<bar>x\<bar> - 52) (- 1074);
               m = roundTiesToEven (\<bar>x\<bar> / pow2 e)
           in if 971 < e \<or> (e = 971 \<and> m = 2 ^ 53)
              then (if 0 < x then PosInf else NegInf)
              else Fin (sgn x * of_int m * pow2 e))"

definition isDouble :: "rat \<Rightarrow> bool" where
  \<comment> \<open>the rational is the exact value of some finite double\<close>
  "isDouble q = (toNumber q = Fin q)"

fun fneg :: "number \<Rightarrow> number" where
  "fneg (Fin a) = Fin (- a)"
| "fneg PosInf = NegInf"
| "fneg NegInf = PosInf"
| "fneg NaN = NaN"

fun fadd :: "number \<Rightarrow> number \<Rightarrow> number" where
  "fadd (Fin a) (Fin b) = toNumber (a + b)"
| "fadd NaN y = NaN"
| "fadd x NaN = NaN"
| "fadd PosInf NegInf = NaN"
| "fadd NegInf PosInf = NaN"
| "fadd PosInf y = PosInf"
| "fadd x PosInf = PosInf"
| "fadd NegInf y = NegInf"
| "fadd x NegInf = NegInf"

definition fsub :: "number \<Rightarrow> number \<Rightarrow> number" where
  "fsub x y = fadd x (fneg y)"

fun fmul :: "number \<Rightarrow> number \<Rightarrow> number" where
  "fmul (Fin a) (Fin b) = toNumber (a * b)"
| "fmul NaN y = NaN"
| "fmul x NaN = NaN"
| "fmul (Fin a) PosInf = (if a = 0 then NaN else if 0 < a then PosInf else NegInf)"
| "fmul (Fin a) NegInf = (if a = 0 then NaN else if 0 < a then NegInf else PosInf)"
| "fmul PosInf (Fin b) = (if b = 0 then NaN else if 0 < b then PosInf else NegInf)"
| "fmul NegInf (Fin b) = (if b = 0 then NaN else if 0 < b then NegInf else PosInf)"
| "fmul PosInf PosInf = PosInf"
| "fmul PosInf NegInf = NegInf"
| "fmul NegInf PosInf = NegInf"
| "fmul NegInf NegInf = PosInf"

fun fdiv :: "number \<Rightarrow> number \<Rightarrow> number" where
  "fdiv (Fin a) (Fin b) =
     (if b = 0 then (if a = 0 then NaN else if 0 < a then PosInf else NegInf)
      else toNumber (a / b))"
| "fdiv NaN y = NaN"
| "fdiv x NaN = NaN"
| "fdiv (Fin a) PosInf = Fin 0"
| "fdiv (Fin a) NegInf = Fin 0"
| "fdiv PosInf (Fin b) = (if 0 \<le> b then PosInf else NegInf)"
| "fdiv NegInf (Fin b) = (if 0 \<le> b then NegInf else PosInf)"
| "fdiv PosInf y = NaN"
| "fdiv NegInf y = NaN"

fun numGe :: "number \<Rightarrow> number \<Rightarrow> bool" where
  \<comment> \<open>\<open>x >= y\<close>: false as soon as one side is NaN\<close>
  "numGe (Fin a) (Fin b) = (b \<le> a)"
| "numGe NaN y = False"
| "numGe x NaN = False"
| "numGe PosInf y = True"
| "numGe x NegInf = True"
| "numGe (Fin a) PosInf = False"
| "numGe NegInf y = False"

definition numLe :: "number \<Rightarrow> number \<Rightarrow> bool" where
  "numLe x y = numGe y x"

fun isPositive :: "number \<Rightarrow> bool" where
  "isPositive (Fin a) = (0 < a)"
| "isPositive PosInf = True"
| "isPositive NegInf = False"
| "isPositive NaN = False"

fun isNegative :: "number \<Rightarrow> bool" where
  "isNegative (Fin a) = (a < 0)"
| "isNegative PosInf = False"
| "isNegative NegInf = True"
| "isNegative NaN = False"

subsection \<open>Strings and arrays\<close>

fun joinWith :: "string \<Rightarrow> string list \<Rightarrow> string" where
  \<comment> \<open>\<open>Array.prototype.join\<close>\<close>
  "joinWith sep [] = []"
| "joinWith sep [x] = x"
| "joinWith sep (x # y # ys) = x @ sep @ joinWith sep (y # ys)"

fun includesStr :: "string \<Rightarrow> string \<Rightarrow> bool" where
  \<comment> \<open>\<open>String.prototype.includes\<close>: the second string occurs in the first\<close>
  "includesStr [] n = (n = [])"
| "includesStr (c # cs) n = (take (length n) (c # cs) = n \<or> includesStr cs n)"

definition digitChar :: "nat \<Rightarrow> char" where
  "digitChar d = ''0123456789'' ! d"

function digitsOf :: "nat \<Rightarrow> string" where
  \<comment> \<open>the decimal representation of a non-negative integer\<close>
  "digitsOf n = (if n < 10 then [digitChar n] else digitsOf (n div 10) @ [digitChar (n mod 10)])"
  by pat_completeness auto
termination
  by (relation "measure id") auto

declare digitsOf.simps [simp del]

definition isDigit :: "char \<Rightarrow> bool" where
  "isDigit c = (c \<in> set ''0123456789'')"

definition digitVal :: "char \<Rightarrow> nat" where
  "digitVal c = of_char c - 48"

definition numeral_of :: "string \<Rightarrow> nat" where
  "numeral_of s = foldl (\<lambda>a c. 10 * a + digitVal c) 0 s"

definition padStart :: "nat \<Rightarrow> string \<Rightarrow> string" where
  \<comment> \<open>\<open>s.padStart(k, "0")\<close>\<close>
  "padStart k s = replicate (k - length s) (CHR ''0'') @ s"

subsection \<open>The runtime\<close>

text \<open>
  What the program takes from the JavaScript runtime and its locale, and what this
  development does not define itself: the Unicode case mapping, the collation of the
  locale, the number parser, the date parser on strings that are not \<open>YYYY-MM-DD\<close>, the
  offset of local time from UTC (in milliseconds, as a function of the UTC time value), the
  printer of numbers in exponent notation, and the en-US label of a year and a month
  (\<open>toLocaleDateString\<close> with a short month and a numeric year). Every theorem below holds for every such
  runtime unless it states an assumption on it.
\<close>

record jsEnv =
  toLowerCase :: "string \<Rightarrow> string"
  localeCompare :: "string \<Rightarrow> string \<Rightarrow> int"
  parseFloat :: "string \<Rightarrow> number"
  otherDateParse :: "string \<Rightarrow> int option"
  localTZA :: "int \<Rightarrow> int"
  numberToString :: "rat \<Rightarrow> string"
  monthYearLabel :: "int \<Rightarrow> int \<Rightarrow> string"

definition toFixed :: "jsEnv \<Rightarrow> number \<Rightarrow> nat \<Rightarrow> string" where
  \<comment> \<open>\<open>Number.prototype.toFixed\<close>: fixed notation below \<open>10 ^ 21\<close>, halves rounded up\<close>
  "toFixed env x f =
     (case x of
        NaN \<Rightarrow> ''NaN''
      | PosInf \<Rightarrow> ''Infinity''
      | NegInf \<Rightarrow> ''-Infinity''
      | Fin q \<Rightarrow>
          (if q < 0 then ''-'' else '''') @
          (if 10 ^ 21 \<le> \<bar>q\<bar> then numberToString env \<bar>q\<bar>
           else let n = nat \<lfloor>\<bar>q\<bar> * 10 ^ f + 1 / 2\<rfloor>;
                    m = digitsOf n;
                    m' = (if f = 0 then m else padStart (f + 1) m);
                    k = length m'
                in if f = 0 then m' else take (k - f) m' @ ''.'' @ drop (k - f) m'))"

subsection \<open>Dates\<close>

text \<open>
  A \<open>Date\<close> object is its time value: the milliseconds since the epoch in UTC, or nothing
  for an invalid date (\<open>int option\<close>). The calendar functions are those of the ECMAScript
  specification (Day, DayFromYear, YearFromTime, MonthFromTime, DateFromTime, MakeDay);
  months count from 0.
\<close>

definition msPerDay :: int where
  "msPerDay = 86400000"

definition Day :: "int \<Rightarrow> int" where
  "Day t = t div msPerDay"

definition DaysInYear :: "int \<Rightarrow> int" where
  "DaysInYear y =
     (if y mod 4 \<noteq> 0 then 365 else if y mod 100 \<noteq> 0 then 366
      else if y mod 400 \<noteq> 0 then 365 else 366)"

definition DayFromYear :: "int \<Rightarrow> int" where
  "DayFromYear y =
     365 * (y - 1970) + (y - 1969) div 4 - (y - 1901) div 100 + (y - 1601) div 400"

definition YearFromDay :: "int \<Rightarrow> int" where
  \<comment> \<open>the largest year that starts on or before the day: an estimate, corrected by one\<close>
  "YearFromDay d =
     (let y = 1970 + (d * 400) div 146097
      in if DayFromYear (y + 1) \<le> d then y + 1 else if DayFromYear y \<le> d then y else y - 1)"

definition YearFromTime :: "int \<Rightarrow> int" where
  "YearFromTime t = YearFromDay (Day t)"

definition monthStarts :: "int \<Rightarrow> int list" where
  \<comment> \<open>the day within the year on which each month starts, in a year of the given length\<close>
  "monthStarts len =
     (let l = len - 365
      in [0, 31, 59 + l, 90 + l, 120 + l, 151 + l, 181 + l, 212 + l, 243 + l, 273 + l,
          304 + l, 334 + l])"

definition DayWithinYear :: "int \<Rightarrow> int" where
  "DayWithinYear t = Day t - DayFromYear (YearFromTime t)"

definition MonthFromTime :: "int \<Rightarrow> int" where
  \<comment> \<open>the number of the months after January that have started by the day\<close>
  "MonthFromTime t =
     int (length (filter (\<lambda>s. s \<le> DayWithinYear t)
                    (tl (monthStarts (DaysInYear (YearFromTime t))))))"

definition DateFromTime :: "int \<Rightarrow> int" where
  "DateFromTime t =
     DayWithinYear t - monthStarts (DaysInYear (YearFromTime t)) ! nat (MonthFromTime t) + 1"

definition MakeDay :: "int \<Rightarrow> int \<Rightarrow> int \<Rightarrow> int" where
  "MakeDay year month dt =
     (let ym = year + month div 12; mn = month mod 12
      in DayFromYear ym + monthStarts (DaysInYear ym) ! nat mn + dt - 1)"

definition DaysInMonth :: "int \<Rightarrow> int \<Rightarrow> int" where
  \<comment> \<open>month from 0\<close>
  "DaysInMonth y mn =
     (if mn = 11 then 31
      else monthStarts (DaysInYear y) ! nat (mn + 1) - monthStarts (DaysInYear y) ! nat mn)"

definition TimeClip :: "int \<Rightarrow> int option" where
  "TimeClip t = (if \<bar>t\<bar> \<le> 8640000000000000 then Some t else None)"

definition isoDate :: "string \<Rightarrow> (int \<times> int \<times> int) option" where
  \<comment> \<open>the date-only form \<open>YYYY-MM-DD\<close> of the ECMAScript date-time string format\<close>
  "isoDate s =
     (if length s = 10 \<and> s ! 4 = CHR ''-'' \<and> s ! 7 = CHR ''-''
         \<and> list_all isDigit (take 4 s) \<and> list_all isDigit (take 2 (drop 5 s))
         \<and> list_all isDigit (drop 8 s)
      then Some (int (numeral_of (take 4 s)), int (numeral_of (take 2 (drop 5 s))),
                 int (numeral_of (drop 8 s)))
      else None)"

definition newDate :: "jsEnv \<Rightarrow> string \<Rightarrow> int option" where
  \<comment> \<open>\<open>new Date(s)\<close>: a date-only string is the midnight that starts the day in UTC\<close>
  "newDate env s =
     (case isoDate s of
        Some (y, m, d) \<Rightarrow>
          (if 1 \<le> m \<and> m \<le> 12 \<and> 1 \<le> d \<and> d \<le> DaysInMonth y (m - 1)
           then Some (MakeDay y (m - 1) d * msPerDay)
           else otherDateParse env s)
      | None \<Rightarrow> otherDateParse env s)"

definition LocalTime :: "jsEnv \<Rightarrow> int \<Rightarrow> int" where
  "LocalTime env t = t + localTZA env t"

definition getTime :: "int option \<Rightarrow> number" where
  "getTime d = (case d of Some t \<Rightarrow> Fin (of_int t) | None \<Rightarrow> NaN)"

definition getMonth :: "jsEnv \<Rightarrow> int option \<Rightarrow> int option" where
  \<comment> \<open>the month of the date in local time; nothing (NaN) for an invalid date\<close>
  "getMonth env d = map_option (\<lambda>t. MonthFromTime (LocalTime env t)) d"

definition getFullYear :: "jsEnv \<Rightarrow> int option \<Rightarrow> int option" where
  "getFullYear env d = map_option (\<lambda>t. YearFromTime (LocalTime env t)) d"

definition strictEq :: "int option \<Rightarrow> int \<Rightarrow> bool" where
  \<comment> \<open>\<open>x === y\<close> for a number that may be NaN and one that is not\<close>
  "strictEq x y = (x = Some y)"

definition toISODate :: "int \<Rightarrow> string" where
  \<comment> \<open>\<open>toISOString().split('T')[0]\<close>: the UTC date, the year on four digits from 0 to 9999
      and signed on six digits otherwise\<close>
  "toISODate t =
     (let y = YearFromTime t
      in (if 0 \<le> y \<and> y \<le> 9999 then padStart 4 (digitsOf (nat y))
          else (if y < 0 then ''-'' else ''+'') @ padStart 6 (digitsOf (nat \<bar>y\<bar>)))
         @ ''-'' @ padStart 2 (digitsOf (nat (MonthFromTime t + 1)))
         @ ''-'' @ padStart 2 (digitsOf (nat (DateFromTime t))))"

section \<open>The receipt record\<close>

record receipt =
  rid :: string
  vendor :: string
  date :: string
  amount :: number
  category :: string
  fileName :: string
  fileType :: string
  confidence :: number

subsection \<open>The mock generator\<close>

text \<open>
  Every record of the record set is made by \<open>generateMockReceipt\<close>: the vendor is drawn
  from a fixed list of names, the category is looked up for the vendor, the amount is
  drawn between 5 and 205 and the confidence between 0.7 and 1 (both rounded to
  hundredths), the date is the UTC date (\<open>toISOString\<close>) of a day of the last year, and
  the file name is the name of the uploaded file.
\<close>

definition vendors :: "string list" where
  "vendors =
     [''Walmart'', ''Target'', ''Amazon'', ''Costco'', ''Home Depot'', ''Starbucks'',
      ''McDonald's'', ''Shell'', ''Verizon'', ''AT&T'', ''Netflix'', ''Spotify'',
      ''Best Buy'', ''CVS Pharmacy'', ''Whole Foods'', ''Safeway'', ''Kroger'']"

definition vendorCategories :: "(string \<times> string) list" where
  "vendorCategories =
     [(''Walmart'', ''groceries''), (''Target'', ''shopping''), (''Amazon'', ''shopping''),
      (''Costco'', ''groceries''), (''Home Depot'', ''other''), (''Starbucks'', ''dining''),
      (''McDonald's'', ''dining''), (''Shell'', ''transportation''),
      (''Verizon'', ''utilities''), (''AT&T'', ''utilities''), (''Netflix'', ''entertainment''),
      (''Spotify'', ''entertainment''), (''Best Buy'', ''shopping''),
      (''CVS Pharmacy'', ''healthcare''), (''Whole Foods'', ''groceries''),
      (''Safeway'', ''groceries''), (''Kroger'', ''groceries'')]"

definition getRandomCategory :: "string \<Rightarrow> string" where
  \<comment> \<open>\<open>vendorCategories[vendor] || 'other'\<close>, for a vendor of the list (an own key or none)\<close>
  "getRandomCategory v = (case map_of vendorCategories v of Some c \<Rightarrow> c | None \<Rightarrow> ''other'')"

section \<open>Notifications and downloads\<close>

datatype variant = Default | Destructive

record toast =
  title :: string
  description :: string
  variant :: variant

datatype effect =
  ShowToast toast
| Download string string

section \<open>Upload validation\<close>

record File =
  file_name :: string
  file_type :: string
  file_size :: nat

definition allowedTypes :: "string list" where
  "allowedTypes = [''image/jpeg'', ''image/png'', ''application/pdf'', ''text/plain'']"

definition rejection :: "File \<Rightarrow> toast option" where
  \<comment> \<open>the callback of \<open>newFiles.filter\<close>: the notice it shows for a file it rejects\<close>
  "rejection f =
     (if file_type f \<notin> set allowedTypes
      then Some \<lparr>title = ''Invalid file type'',
                 description = file_name f @
                   '' is not a supported format. Please upload JPG, PNG, PDF, or TXT files.'',
                 variant = Destructive\<rparr>
      else if 10 * 1024 * 1024 < file_size f
      then Some \<lparr>title = ''File too large'',
                 description = file_name f @ '' exceeds 10MB limit.'',
                 variant = Destructive\<rparr>
      else None)"

definition handleFiles :: "File list \<Rightarrow> File list \<Rightarrow> File list \<times> toast list" where
  \<comment> \<open>the selected files after the batch, and the notices shown, in order\<close>
  "handleFiles files newFiles =
     (let validFiles = filter (\<lambda>f. rejection f = None) newFiles
      in (files @ validFiles, List.map_filter rejection newFiles))"

section \<open>Export\<close>

definition headers :: "string list" where
  "headers = [''Date'', ''Vendor'', ''Amount'', ''Category'', ''File'', ''Confidence'']"

definition quoted :: "string \<Rightarrow> string" where
  "quoted s = [CHR 0x22] @ s @ [CHR 0x22]"

definition csvFields :: "jsEnv \<Rightarrow> receipt \<Rightarrow> string list" where
  "csvFields env r =
     [date r, quoted (vendor r), toFixed env (amount r) 2, category r,
      quoted (fileName r), toFixed env (confidence r) 2]"

definition csvRow :: "jsEnv \<Rightarrow> receipt \<Rightarrow> string" where
  "csvRow env r = joinWith '','' (csvFields env r)"

definition csvLines :: "jsEnv \<Rightarrow> receipt list \<Rightarrow> string list" where
  "csvLines env rs = joinWith '','' headers # map (csvRow env) rs"

definition csvContent :: "jsEnv \<Rightarrow> receipt list \<Rightarrow> string" where
  "csvContent env rs = joinWith [CHR 0x0A] (csvLines env rs)"

definition handleExport :: "jsEnv \<Rightarrow> int \<Rightarrow> receipt list \<Rightarrow> receipt list \<times> effect list" where
  \<comment> \<open>the record set after the action (the handler never writes it), and what the user
      sees: notices and the download (file name, content)\<close>
  "handleExport env now receipts =
     (if length receipts = 0
      then (receipts,
            [ShowToast \<lparr>title = ''No data to export'',
                        description = ''Upload some receipts first.'',
                        variant = Destructive\<rparr>])
      else (receipts,
            [Download (''receipt-data-'' @ toISODate now @ ''.csv'') (csvContent env receipts),
             ShowToast \<lparr>title = ''Export successful'',
                        description = ''Receipt data has been downloaded as CSV.'',
                        variant = Default\<rparr>]))"

section \<open>The receipt table: filtering and sorting\<close>

datatype SortField = ByDate | ByAmount | ByVendor | ByCategory

datatype SortDirection = Asc | Desc

record tableState =
  searchTerm :: string
  categoryFilter :: string
  dateFilter :: string
  sortField :: SortField
  sortDirection :: SortDirection
  amountMin :: string
  amountMax :: string

definition matchesSearch :: "jsEnv \<Rightarrow> tableState \<Rightarrow> receipt \<Rightarrow> bool" where
  "matchesSearch env st r =
     (let searchFields = toLowerCase env (joinWith '' '' [vendor r, category r])
      in searchTerm st = [] \<or> includesStr searchFields (toLowerCase env (searchTerm st)))"

definition matchesCategory :: "tableState \<Rightarrow> receipt \<Rightarrow> bool" where
  "matchesCategory st r = (categoryFilter st = ''all'' \<or> category r = categoryFilter st)"

definition matchesDate :: "jsEnv \<Rightarrow> int \<Rightarrow> tableState \<Rightarrow> receipt \<Rightarrow> bool" where
  "matchesDate env now st r =
     (let receiptDate = newDate env (date r)
      in if dateFilter st = ''last30''
         then numGe (getTime receiptDate) (getTime (TimeClip (now - 30 * 24 * 60 * 60 * 1000)))
         else if dateFilter st = ''last90''
         then numGe (getTime receiptDate) (getTime (TimeClip (now - 90 * 24 * 60 * 60 * 1000)))
         else if dateFilter st = ''thisYear''
         then strictEq (getFullYear env receiptDate) (YearFromTime (LocalTime env now))
         else True)"

definition matchesAmount :: "jsEnv \<Rightarrow> tableState \<Rightarrow> receipt \<Rightarrow> bool" where
  "matchesAmount env st r =
     ((amountMin st = [] \<or> numGe (amount r) (parseFloat env (amountMin st)))
      \<and> (amountMax st = [] \<or> numLe (amount r) (parseFloat env (amountMax st))))"

definition matchesAll :: "jsEnv \<Rightarrow> int \<Rightarrow> tableState \<Rightarrow> receipt \<Rightarrow> bool" where
  "matchesAll env now st r =
     (matchesSearch env st r \<and> matchesCategory st r \<and> matchesDate env now st r
      \<and> matchesAmount env st r)"

definition comparison :: "jsEnv \<Rightarrow> SortField \<Rightarrow> receipt \<Rightarrow> receipt \<Rightarrow> number" where
  "comparison env field a b =
     (case field of
        ByDate \<Rightarrow> fsub (getTime (newDate env (date a))) (getTime (newDate env (date b)))
      | ByAmount \<Rightarrow> fsub (amount a) (amount b)
      | ByVendor \<Rightarrow> Fin (of_int (localeCompare env (vendor a) (vendor b)))
      | ByCategory \<Rightarrow> Fin (of_int (localeCompare env (category a) (category b))))"

definition compareFn :: "jsEnv \<Rightarrow> tableState \<Rightarrow> receipt \<Rightarrow> receipt \<Rightarrow> number" where
  "compareFn env st a b =
     (if sortDirection st = Asc then comparison env (sortField st) a b
      else fneg (comparison env (sortField st) a b))"

text \<open>
  \<open>Array.prototype.sort\<close> with a comparator: the sort is stable, and a comparator result
  above zero puts the first argument after the second. For a consistent comparator (one
  that orders the elements as a total preorder) the result is the one stable ordering,
  whichever algorithm the engine runs; it is computed here by stable insertion. For an
  inconsistent comparator, such as one that answers NaN for some pairs only, ECMAScript
  leaves the order to the engine, and the engines do not agree with stable insertion
  beyond two elements: every property below that speaks of an order is stated for
  elements on which the comparator is consistent.
\<close>

fun insertSorted :: "('a \<Rightarrow> 'a \<Rightarrow> number) \<Rightarrow> 'a \<Rightarrow> 'a list \<Rightarrow> 'a list" where
  "insertSorted cmp x [] = [x]"
| "insertSorted cmp x (y # ys) =
     (if isPositive (cmp x y) then y # insertSorted cmp x ys else x # y # ys)"

definition sortWith :: "('a \<Rightarrow> 'a \<Rightarrow> number) \<Rightarrow> 'a list \<Rightarrow> 'a list" where
  "sortWith cmp xs = foldr (insertSorted cmp) xs []"

definition filteredAndSortedReceipts ::
  "jsEnv \<Rightarrow> int \<Rightarrow> tableState \<Rightarrow> receipt list \<Rightarrow> receipt list" where
  "filteredAndSortedReceipts env now st receipts =
     (let filtered = filter (matchesAll env now st) receipts
      in sortWith (compareFn env st) filtered)"

definition handleSort :: "SortField \<Rightarrow> tableState \<Rightarrow> tableState" where
  "handleSort field st =
     (if sortField st = field
      then st\<lparr>sortDirection := (if sortDirection st = Asc then Desc else Asc)\<rparr>
      else st\<lparr>sortField := field, sortDirection := Asc\<rparr>)"

section \<open>The dashboard statistics\<close>

subsection \<open>Plain objects used as dictionaries\<close>

text \<open>
  The vendor counts and the category breakdown are plain objects created by \<open>{}\<close>.
  Such an object holds its own properties in creation order and inherits the members of
  \<open>Object.prototype\<close>. Reading a name the object does not own finds the inherited member
  (a function, or the prototype itself for \<open>__proto__\<close>), which is truthy and turns
  \<open>+\<close> into string concatenation; writing \<open>__proto__\<close> with a string is ignored by its
  setter. A property is a number or such a string, of which only the kind is kept: as a
  number it reads as NaN. \<open>Object.entries\<close> lists the array-index names first, in
  numeric order, then the others in creation order.
\<close>

datatype property = NumberValue number | StringValue

type_synonym object = "(string \<times> property) list"

definition objectPrototypeNames :: "string list" where
  "objectPrototypeNames =
     [''constructor'', ''__defineGetter__'', ''__defineSetter__'', ''hasOwnProperty'',
      ''__lookupGetter__'', ''__lookupSetter__'', ''isPrototypeOf'', ''propertyIsEnumerable'',
      ''toString'', ''valueOf'', ''__proto__'', ''toLocaleString'']"

definition truthyOr0 :: "number \<Rightarrow> number" where
  \<comment> \<open>\<open>x || 0\<close> for a number: zero and NaN are falsy\<close>
  "truthyOr0 x = (if x = Fin 0 \<or> x = NaN then Fin 0 else x)"

definition accumulated :: "object \<Rightarrow> string \<Rightarrow> number \<Rightarrow> property" where
  \<comment> \<open>\<open>(acc[k] || 0) + v\<close>\<close>
  "accumulated acc k v =
     (case map_of acc k of
        Some (NumberValue x) \<Rightarrow> NumberValue (fadd (truthyOr0 x) v)
      | Some StringValue \<Rightarrow> StringValue
      | None \<Rightarrow> if k \<in> set objectPrototypeNames then StringValue
                else NumberValue (fadd (Fin 0) v))"

definition assign :: "object \<Rightarrow> string \<Rightarrow> property \<Rightarrow> object" where
  \<comment> \<open>\<open>acc[k] = p\<close> for a number or a string \<open>p\<close>\<close>
  "assign acc k p =
     (if k = ''__proto__'' then acc
      else if map_of acc k = None then acc @ [(k, p)]
      else map (\<lambda>(k', p'). if k' = k then (k', p) else (k', p')) acc)"

definition arrayIndex :: "string \<Rightarrow> nat option" where
  \<comment> \<open>the canonical decimal names of the integers up to \<open>2 ^ 32 - 2\<close>\<close>
  "arrayIndex s =
     (if s \<noteq> [] \<and> list_all isDigit s \<and> (length s = 1 \<or> hd s \<noteq> CHR ''0'')
         \<and> numeral_of s \<le> 4294967294
      then Some (numeral_of s) else None)"

definition entries :: "object \<Rightarrow> (string \<times> property) list" where
  "entries obj =
     sort_key (\<lambda>(k, p). the (arrayIndex k)) (filter (\<lambda>(k, p). arrayIndex k \<noteq> None) obj)
     @ filter (\<lambda>(k, p). arrayIndex k = None) obj"

definition asNumber :: "property \<Rightarrow> number" where
  "asNumber p = (case p of NumberValue x \<Rightarrow> x | StringValue \<Rightarrow> NaN)"

subsection \<open>The statistics\<close>

datatype error = TypeError

record ReceiptStats =
  totalReceipts :: nat
  totalAmount :: number
  averageAmount :: number
  medianAmount :: number
  topVendor :: string
  currentMonthSpend :: number
  lastMonthSpend :: number
  categoryBreakdown :: object
  monthlyTrend :: "(string \<times> number) list"

definition sumAmounts :: "receipt list \<Rightarrow> number" where
  \<comment> \<open>\<open>reduce((sum, r) => sum + r.amount, 0)\<close>\<close>
  "sumAmounts rs = foldl (\<lambda>sum r. fadd sum (amount r)) (Fin 0) rs"

definition amountAt :: "receipt list \<Rightarrow> int \<Rightarrow> error + number" where
  \<comment> \<open>\<open>xs[i].amount\<close>: a TypeError where \<open>xs[i]\<close> is undefined\<close>
  "amountAt xs i = (if 0 \<le> i \<and> i < int (length xs) then Inr (amount (xs ! nat i))
                    else Inl TypeError)"

definition computeMedian :: "receipt list \<Rightarrow> error + number" where
  "computeMedian receipts =
     (let sortedAmounts = sortWith (\<lambda>a b. fsub (amount a) (amount b)) receipts;
          n = int (length receipts)
      in if n mod 2 = 0
         then (case amountAt sortedAmounts (n div 2 - 1) of
                 Inl e \<Rightarrow> Inl e
               | Inr a \<Rightarrow> (case amountAt sortedAmounts (n div 2) of
                            Inl e \<Rightarrow> Inl e
                          | Inr b \<Rightarrow> Inr (fdiv (fadd a b) (Fin 2))))
         else amountAt sortedAmounts (n div 2))"

definition vendorCounts :: "receipt list \<Rightarrow> object" where
  "vendorCounts rs =
     foldl (\<lambda>acc r. assign acc (vendor r) (accumulated acc (vendor r) (Fin 1))) [] rs"

definition computeTopVendor :: "receipt list \<Rightarrow> string" where
  \<comment> \<open>\<open>Object.entries(vendorCounts).sort(([,a], [,b]) => b - a)[0]?.[0] || ''\<close>\<close>
  "computeTopVendor rs =
     (case sortWith (\<lambda>(ka, a) (kb, b). fsub (asNumber b) (asNumber a))
             (entries (vendorCounts rs)) of
        [] \<Rightarrow> []
      | (k, p) # rest \<Rightarrow> k)"

definition monthSpend :: "jsEnv \<Rightarrow> receipt list \<Rightarrow> int \<Rightarrow> int \<Rightarrow> number" where
  \<comment> \<open>the spend of the records whose date reads, in local time, as the month and year\<close>
  "monthSpend env rs mn yr =
     sumAmounts (filter (\<lambda>r. let d = newDate env (date r)
                              in strictEq (getMonth env d) mn \<and> strictEq (getFullYear env d) yr)
                        rs)"

definition computeBreakdown :: "receipt list \<Rightarrow> object" where
  "computeBreakdown rs =
     foldl (\<lambda>acc r. assign acc (category r) (accumulated acc (category r) (amount r))) [] rs"

definition targetDate :: "int \<Rightarrow> int \<Rightarrow> int \<times> int" where
  \<comment> \<open>\<open>new Date(year, month, 1)\<close> as \<open>getFullYear\<close> and \<open>getMonth\<close> read it back: a year
      from 0 to 99 stands for 1900 to 1999 (MakeFullYear), and the month is brought into
      0..11 by moving the year (MakeDay)\<close>
  "targetDate year month =
     (let yr = (if 0 \<le> year \<and> year \<le> 99 then 1900 + year else year)
      in (yr + month div 12, month mod 12))"

definition computeTrend :: "jsEnv \<Rightarrow> int \<Rightarrow> receipt list \<Rightarrow> (string \<times> number) list" where
  "computeTrend env now rs =
     (let currentMonth = MonthFromTime (LocalTime env now);
          currentYear = YearFromTime (LocalTime env now)
      in map (\<lambda>i. let (ty, tm) = targetDate currentYear (currentMonth - i)
                  in (monthYearLabel env ty tm, monthSpend env rs tm ty))
             [5, 4, 3, 2, 1, 0])"

definition stats :: "jsEnv \<Rightarrow> int \<Rightarrow> receipt list \<Rightarrow> error + ReceiptStats" where
  "stats env now receipts =
     (if length receipts = 0
      then Inr \<lparr>totalReceipts = 0, totalAmount = Fin 0, averageAmount = Fin 0,
                medianAmount = Fin 0, topVendor = [], currentMonthSpend = Fin 0,
                lastMonthSpend = Fin 0, categoryBreakdown = [], monthlyTrend = []\<rparr>
      else
        let total = sumAmounts receipts;
            average = fdiv total (Fin (of_nat (length receipts)));
            currentMonth = MonthFromTime (LocalTime env now);
            currentYear = YearFromTime (LocalTime env now);
            lastMonth = (if currentMonth = 0 then 11 else currentMonth - 1);
            lastMonthYear = (if currentMonth = 0 then currentYear - 1 else currentYear)
        in case computeMedian receipts of
             Inl e \<Rightarrow> Inl e
           | Inr median \<Rightarrow>
               Inr \<lparr>totalReceipts = length receipts, totalAmount = total,
                    averageAmount = average, medianAmount = median,
                    topVendor = computeTopVendor receipts,
                    currentMonthSpend = monthSpend env receipts currentMonth currentYear,
                    lastMonthSpend = monthSpend env receipts lastMonth lastMonthYear,
                    categoryBreakdown = computeBreakdown receipts,
                    monthlyTrend = computeTrend env now receipts\<rparr>)"

section \<open>A runtime and records for the examples\<close>

text \<open>
  The examples below run in \<open>sampleEnv\<close>: a browser in the en-US locale whose local
  time is five hours behind UTC all year (as in America/Bogota). It is a runtime for the
  examples only, not a model of a browser: each component is what such a browser computes
  on the arguments the examples pass to it, and may differ elsewhere. The examples
  lower-case ASCII letters, collate capitalised ASCII words (where the collation of the
  locale is the order of the code units), parse strings of digits without a decimal
  point, parse no date but valid ones of the form \<open>YYYY-MM-DD\<close>, print no number in
  exponent notation, and label months of years of the common era.
\<close>

definition lowerAscii :: "string \<Rightarrow> string" where
  "lowerAscii s =
     map (\<lambda>c. if 65 \<le> (of_char c :: nat) \<and> (of_char c :: nat) \<le> 90
              then char_of ((of_char c :: nat) + 32) else c) s"

fun compareCodeUnits :: "string \<Rightarrow> string \<Rightarrow> int" where
  "compareCodeUnits [] [] = 0"
| "compareCodeUnits [] (y # ys) = - 1"
| "compareCodeUnits (x # xs) [] = 1"
| "compareCodeUnits (x # xs) (y # ys) =
     (if (of_char x :: nat) < of_char y then - 1
      else if (of_char y :: nat) < of_char x then 1
      else compareCodeUnits xs ys)"

definition parseDigits :: "string \<Rightarrow> number" where
  "parseDigits s =
     (if s \<noteq> [] \<and> list_all isDigit s then toNumber (of_nat (numeral_of s)) else NaN)"

definition shortMonths :: "string list" where
  "shortMonths = [''Jan'', ''Feb'', ''Mar'', ''Apr'', ''May'', ''Jun'', ''Jul'', ''Aug'',
                  ''Sep'', ''Oct'', ''Nov'', ''Dec'']"

definition enUSLabel :: "int \<Rightarrow> int \<Rightarrow> string" where
  "enUSLabel y m = shortMonths ! nat m @ '' '' @ digitsOf (nat y)"

definition sampleEnv :: jsEnv where
  "sampleEnv =
     \<lparr>toLowerCase = lowerAscii, localeCompare = compareCodeUnits, parseFloat = parseDigits,
      otherDateParse = (\<lambda>s. None), localTZA = (\<lambda>t. - 18000000),
      numberToString = (\<lambda>q. ''1e+21''), monthYearLabel = enUSLabel\<rparr>"

definition sampleReceipt :: "string \<Rightarrow> string \<Rightarrow> string \<Rightarrow> rat \<Rightarrow> receipt" where
  "sampleReceipt v c d a =
     \<lparr>rid = ''r'', vendor = v, date = d, amount = Fin a, category = c,
      fileName = ''receipt.png'', fileType = ''image/png'', confidence = Fin (3 / 4)\<rparr>"

definition sampleNow :: int where
  \<comment> \<open>2024-03-15T12:00:00Z, seven in the morning of 15 March 2024 in \<open>sampleEnv\<close>\<close>
  "sampleNow = 1710504000000"

section \<open>The notions the properties are stated with\<close>

text \<open>
  The invariants of the data model that the properties below rely on: the amount of a
  record is a finite, non-negative double, and its date is one the runtime can parse.
\<close>

definition validAmount :: "receipt \<Rightarrow> bool" where
  "validAmount r = (case amount r of Fin a \<Rightarrow> isDouble a \<and> 0 \<le> a | _ \<Rightarrow> False)"

definition validDate :: "jsEnv \<Rightarrow> receipt \<Rightarrow> bool" where
  "validDate env r = (newDate env (date r) \<noteq> None)"

definition wellFormed :: "jsEnv \<Rightarrow> receipt \<Rightarrow> bool" where
  "wellFormed env r = (validAmount r \<and> validDate env r)"

text \<open>
  The collation of the locale is a total preorder: swapping the arguments swaps the sign,
  and being at most zero is transitive.
\<close>

definition consistentCollation :: "jsEnv \<Rightarrow> bool" where
  "consistentCollation env =
     ((\<forall>a b. (localeCompare env a b < 0) = (0 < localeCompare env b a))
      \<and> (\<forall>a b c. localeCompare env a b \<le> 0 \<and> localeCompare env b c \<le> 0
                 \<longrightarrow> localeCompare env a c \<le> 0))"

text \<open>
  What being ordered by the chosen key means: by time value for dates, by value for
  amounts, by the collation of the locale for vendors and categories; ascending or
  descending.
\<close>

definition keyLe :: "jsEnv \<Rightarrow> SortField \<Rightarrow> receipt \<Rightarrow> receipt \<Rightarrow> bool" where
  "keyLe env field a b =
     (case field of
        ByDate \<Rightarrow> (case (newDate env (date a), newDate env (date b)) of
                     (Some s, Some t) \<Rightarrow> s \<le> t
                   | _ \<Rightarrow> False)
      | ByAmount \<Rightarrow> numLe (amount a) (amount b)
      | ByVendor \<Rightarrow> localeCompare env (vendor a) (vendor b) \<le> 0
      | ByCategory \<Rightarrow> localeCompare env (category a) (category b) \<le> 0)"

definition orderedBy :: "jsEnv \<Rightarrow> SortField \<Rightarrow> SortDirection \<Rightarrow> receipt list \<Rightarrow> bool" where
  "orderedBy env field dir rs =
     (case dir of
        Asc \<Rightarrow> sorted_wrt (keyLe env field) rs
      | Desc \<Rightarrow> sorted_wrt (\<lambda>a b. keyLe env field b a) rs)"



text \<open>
  A number printed with exactly two decimals: an optional minus sign, at least one digit,
  the point, two digits.
\<close>

definition twoDecimals :: "string \<Rightarrow> bool" where
  "twoDecimals s =
     (let t = (if take 1 s = ''-'' then drop 1 s else s); k = length t
      in 4 \<le> k \<and> list_all isDigit (take (k - 3) t) \<and> t ! (k - 3) = CHR ''.''
         \<and> list_all isDigit (drop (k - 2) t))"

text \<open>
  The newline-separated lines of a text (\<open>text.split('\n')\<close>), and what the export
  relies on of the fields the generator fills: the date, the vendor and the category
  hold no line feed, and the amount and the confidence are finite and below \<open>10 ^ 21\<close>
  in magnitude, where \<open>toFixed\<close> prints fixed notation.
\<close>

fun splitOn :: "char \<Rightarrow> string \<Rightarrow> string list" where
  "splitOn c [] = [[]]"
| "splitOn c (x # xs) =
     (if x = c then [] # splitOn c xs
      else (case splitOn c xs of [] \<Rightarrow> [[x]] | l # ls \<Rightarrow> (x # l) # ls))"

definition linesOf :: "string \<Rightarrow> string list" where
  "linesOf text = splitOn (CHR 0x0A) text"

definition singleLine :: "string \<Rightarrow> bool" where
  "singleLine s = (CHR 0x0A \<notin> set s)"

definition fixedNotation :: "number \<Rightarrow> bool" where
  "fixedNotation x = (case x of Fin q \<Rightarrow> \<bar>q\<bar> < 10 ^ 21 | _ \<Rightarrow> False)"

definition plainFields :: "receipt \<Rightarrow> bool" where
  "plainFields r =
     (singleLine (date r) \<and> singleLine (vendor r) \<and> singleLine (category r)
      \<and> fixedNotation (amount r) \<and> fixedNotation (confidence r))"

definition sevenReceipts :: "receipt list" where
  "sevenReceipts =
     map (sampleReceipt ''Shell'' ''transportation'' ''2024-02-10'') [10, 8, 8, 8, 8, 8, 8]"

definition tableSample :: "receipt list" where
  "tableSample =
     [sampleReceipt ''Shell'' ''transportation'' ''2024-03-01'' 30,
      sampleReceipt ''Starbucks'' ''dining'' ''2024-02-10'' 10,
      sampleReceipt ''Costco'' ''groceries'' ''2024-01-05'' 20]"

definition sampleTable :: tableState where
  "sampleTable =
     \<lparr>searchTerm = ''s'', categoryFilter = ''all'', dateFilter = ''last90'',
      sortField = ByAmount, sortDirection = Desc, amountMin = ''5'', amountMax = []\<rparr>"

definition marchFirst :: receipt where
  "marchFirst = sampleReceipt ''Shell'' ''transportation'' ''2024-03-01'' 10"

definition januaryFirst :: receipt where
  "januaryFirst = sampleReceipt ''Shell'' ''transportation'' ''2024-01-01'' 10"

definition thisYearTable :: tableState where
  \<comment> \<open>the table as it opens (by date, descending), with the date window set to this year\<close>
  "thisYearTable =
     \<lparr>searchTerm = [], categoryFilter = ''all'', dateFilter = ''thisYear'',
      sortField = ByDate, sortDirection = Desc, amountMin = [], amountMax = []\<rparr>"

definition vendorSample :: "receipt list" where
  "vendorSample =
     [sampleReceipt ''Shell'' ''transportation'' ''2024-03-01'' 10,
      sampleReceipt ''Target'' ''shopping'' ''2024-02-10'' 20,
      sampleReceipt ''Target'' ''shopping'' ''2024-01-05'' 30]"

definition inheritedSample :: "receipt list" where
  "inheritedSample =
     [sampleReceipt ''constructor'' ''other'' ''2024-02-10'' 10,
      sampleReceipt ''Acme'' ''other'' ''2024-02-10'' 10,
      sampleReceipt ''Acme'' ''other'' ''2024-02-10'' 10]"

definition lineFeedFile :: File where
  "lineFeedFile =
     \<lparr>file_name = ''march'' @ [CHR 0x0A] @ ''.png'', file_type = ''image/png'', file_size = 1000\<rparr>"

definition lineFeedName :: receipt where
  "lineFeedName =
     (sampleReceipt ''Shell'' ''transportation'' ''2024-03-01'' 10)
       \<lparr>fileName := file_name lineFeedFile, fileType := file_type lineFeedFile\<rparr>"

section \<open>Rounding to a double\<close>

lemma pow2_power_int: "pow2 e = 2 powi e"
  by (simp add: pow2_def power_int_def field_simps)

lemma pow2_pos [simp]: "0 < pow2 e"
  by (simp add: pow2_power_int)

lemma pow2_nonneg [simp]: "0 \<le> pow2 e"
  using pow2_pos [of e] by linarith

lemma pow2_not_le0 [simp]: "\<not> pow2 e \<le> 0"
  using pow2_pos [of e] by linarith

lemma pow2_add: "pow2 (a + b) = pow2 a * pow2 b"
  by (simp add: pow2_power_int power_int_add)

lemma pow2_mono: "a \<le> b \<Longrightarrow> pow2 a \<le> pow2 b"
  by (simp add: pow2_power_int power_int_increasing)

lemma pow2_nat: "0 \<le> e \<Longrightarrow> pow2 e = 2 ^ nat e"
  by (simp add: pow2_def)

lemma pow2_neg: "0 \<le> j \<Longrightarrow> pow2 (- j) = 1 / 2 ^ nat j"
  by (cases "j = 0") (simp_all add: pow2_def)

lemma pow2_less_cancel: "pow2 a < pow2 b \<Longrightarrow> a < b"
  using pow2_mono [of b a] by (cases "a < b") auto

lemma ilog2_bounds:
  assumes "0 < x"
  shows "pow2 (ilog2 x) \<le> x \<and> x < pow2 (ilog2 x + 1)"
proof (cases "1 \<le> x")
  case True
  define n where "n = \<lfloor>x\<rfloor>"
  have n1: "1 \<le> n" using True by (simp add: n_def le_floor_iff)
  then have n0: "0 < n" by simp
  from bitlen_bounds [OF n0]
  have lo: "2 ^ nat (bitlen n - 1) \<le> n" and hi: "n < 2 ^ nat (bitlen n)" by auto
  have bl: "1 \<le> bitlen n" using n0 by (simp add: bitlen_ge_iff_power)
  have il: "ilog2 x = bitlen n - 1" using True by (simp add: ilog2_def n_def)
  have "pow2 (bitlen n - 1) = of_int (2 ^ nat (bitlen n - 1))"
    using bl by (simp add: pow2_nat)
  also have "\<dots> \<le> of_int n" using lo by (simp only: of_int_le_iff)
  also have "\<dots> \<le> x" using floor_correct [of x] by (simp add: n_def)
  finally have A: "pow2 (ilog2 x) \<le> x" by (simp add: il)
  have "x < of_int (n + 1)" using floor_correct [of x] by (simp add: n_def)
  also have "of_int (n + 1) \<le> (of_int (2 ^ nat (bitlen n)) :: rat)"
    using hi by (simp only: of_int_le_iff; simp?)
  also have "\<dots> = pow2 (bitlen n)" using bl by (simp add: pow2_nat)
  finally have B: "x < pow2 (ilog2 x + 1)" by (simp add: il)
  from A B show ?thesis by simp
next
  case False
  then have x1: "x < 1" by simp
  define y where "y = 1 / x"
  define c where "c = \<lceil>y\<rceil>"
  have y1: "1 < y" using assms x1 by (simp add: y_def)
  have c2: "2 \<le> c" using y1 ceiling_correct [of y] unfolding c_def by linarith
  then have c0: "0 < c - 1" by simp
  define k where "k = bitlen (c - 1)"
  from bitlen_bounds [OF c0]
  have lo: "2 ^ nat (k - 1) \<le> c - 1" and hi: "c - 1 < 2 ^ nat k" by (auto simp: k_def)
  have k1: "1 \<le> k" using c0 by (simp add: k_def bitlen_ge_iff_power)
  have il: "ilog2 x = - k" using False by (simp add: ilog2_def k_def c_def y_def)
  have "y \<le> of_int c" using ceiling_correct [of y] by (simp add: c_def)
  also have "of_int c \<le> (of_int (2 ^ nat k) :: rat)"
    using hi by (simp only: of_int_le_iff; simp?)
  finally have "y \<le> 2 ^ nat k" by simp
  then have "1 / 2 ^ nat k \<le> x"
    using assms by (simp add: y_def field_simps)
  then have A: "pow2 (ilog2 x) \<le> x" using k1 by (simp add: il pow2_neg)
  have "(of_int (2 ^ nat (k - 1)) :: rat) \<le> of_int (c - 1)"
    using lo by (simp only: of_int_le_iff)
  also have "of_int (c - 1) < y" using ceiling_correct [of y] by (simp add: c_def)
  finally have "2 ^ nat (k - 1) < y" by simp
  then have "x < 1 / 2 ^ nat (k - 1)"
    using assms by (simp add: y_def field_simps)
  moreover have "pow2 (ilog2 x + 1) = 1 / 2 ^ nat (k - 1)"
    using k1 pow2_neg [of "k - 1"] by (simp add: il)
  ultimately have B: "x < pow2 (ilog2 x + 1)" by simp
  from A B show ?thesis by simp
qed

lemma rte_error: "\<bar>of_int (roundTiesToEven y) - y\<bar> \<le> 1 / 2"
  using floor_correct [of y] by (auto simp: roundTiesToEven_def Let_def)

lemma rte_ge1: "1 \<le> y \<Longrightarrow> 1 \<le> roundTiesToEven y"
proof -
  assume "1 \<le> y"
  then have "1 \<le> \<lfloor>y\<rfloor>" by (simp add: le_floor_iff)
  then show ?thesis by (auto simp: roundTiesToEven_def Let_def)
qed

lemma rte_nonneg: "0 \<le> y \<Longrightarrow> 0 \<le> roundTiesToEven y"
proof -
  assume "0 \<le> y"
  then have "0 \<le> \<lfloor>y\<rfloor>" by (simp add: le_floor_iff)
  then show ?thesis by (auto simp: roundTiesToEven_def Let_def)
qed

lemma toNumber_nonzero:
  assumes "x \<noteq> 0"
  shows "toNumber x =
    (if 971 < max (ilog2 \<bar>x\<bar> - 52) (- 1074)
        \<or> (max (ilog2 \<bar>x\<bar> - 52) (- 1074) = 971
            \<and> roundTiesToEven (\<bar>x\<bar> / pow2 (max (ilog2 \<bar>x\<bar> - 52) (- 1074))) = 2 ^ 53)
     then (if 0 < x then PosInf else NegInf)
     else Fin (sgn x * of_int (roundTiesToEven (\<bar>x\<bar> / pow2 (max (ilog2 \<bar>x\<bar> - 52) (- 1074))))
               * pow2 (max (ilog2 \<bar>x\<bar> - 52) (- 1074))))"
  using assms by (simp add: toNumber_def Let_def)

lemma scaled_ge1:
  assumes "pow2 (- 1074) \<le> \<bar>d\<bar>"
  shows "1 \<le> \<bar>d\<bar> / pow2 (max (ilog2 \<bar>d\<bar> - 52) (- 1074))"
proof -
  have d0: "0 < \<bar>d\<bar>" using assms pow2_pos [of "- 1074"] by linarith
  let ?e = "max (ilog2 \<bar>d\<bar> - 52) (- 1074)"
  have "pow2 ?e \<le> \<bar>d\<bar>"
  proof (cases "ilog2 \<bar>d\<bar> - 52 \<le> - 1074")
    case True
    then have "?e = - 1074" by simp
    then show ?thesis using assms by simp
  next
    case False
    then have e: "?e = ilog2 \<bar>d\<bar> - 52" by simp
    have "pow2 (ilog2 \<bar>d\<bar> - 52) \<le> pow2 (ilog2 \<bar>d\<bar>)" by (rule pow2_mono) simp
    also have "\<dots> \<le> \<bar>d\<bar>" using ilog2_bounds [OF d0] by simp
    finally show ?thesis by (simp only: e)
  qed
  then show ?thesis by (simp add: field_simps)
qed

lemma sgn_times_pos:
  fixes p d :: rat
  assumes "0 < p"
  shows "(0 < sgn d * p \<longleftrightarrow> 0 < d) \<and> (sgn d * p < 0 \<longleftrightarrow> d < 0)"
  using assms by (cases "d = 0"; cases "0 < d") (simp_all add: sgn_if)

lemma toNumber_sign:
  assumes "pow2 (- 1074) \<le> \<bar>d\<bar>"
  shows "isPositive (toNumber d) = (0 < d) \<and> isNegative (toNumber d) = (d < 0)"
proof -
  have d0: "d \<noteq> 0" using assms by auto
  let ?e = "max (ilog2 \<bar>d\<bar> - 52) (- 1074)"
  let ?m = "roundTiesToEven (\<bar>d\<bar> / pow2 ?e)"
  have "1 \<le> ?m" using scaled_ge1 [OF assms] by (rule rte_ge1)
  then have "(0::rat) < of_int ?m" by simp
  then have pos: "0 < of_int ?m * pow2 ?e" by simp
  note sg = sgn_times_pos [OF pos, of d]
  from sg have "0 < sgn d * (of_int ?m * pow2 ?e) \<longleftrightarrow> 0 < d" by simp
  moreover from sg have "sgn d * (of_int ?m * pow2 ?e) < 0 \<longleftrightarrow> d < 0" by simp
  ultimately show ?thesis
    using d0 unfolding toNumber_nonzero [OF d0] mult.assoc by (auto simp del: of_int_mult)
qed

lemma isDouble_multiple:
  assumes "isDouble q"
  shows "\<exists>k::int. q = of_int k * pow2 (- 1074)"
proof (cases "q = 0")
  case True
  then show ?thesis by (intro exI [of _ 0]) simp
next
  case False
  let ?e = "max (ilog2 \<bar>q\<bar> - 52) (- 1074)"
  let ?m = "roundTiesToEven (\<bar>q\<bar> / pow2 ?e)"
  from assms have "toNumber q = Fin q" by (simp add: isDouble_def)
  then have q: "q = sgn q * of_int ?m * pow2 ?e"
    by (simp add: toNumber_nonzero [OF False] split: if_splits)
  have e: "0 \<le> ?e + 1074" by simp
  have "pow2 ?e = pow2 (?e + 1074) * pow2 (- 1074)"
    by (simp add: pow2_add [symmetric])
  also have "pow2 (?e + 1074) = of_int (2 ^ nat (?e + 1074))"
    using e by (simp add: pow2_nat)
  finally have p: "pow2 ?e = of_int (2 ^ nat (?e + 1074)) * pow2 (- 1074)" .
  define sg :: int where "sg = (if 0 < q then 1 else - 1)"
  have s: "sgn q = of_int sg" using False by (simp add: sgn_if sg_def)
  have "q = of_int (sg * ?m * 2 ^ nat (?e + 1074)) * pow2 (- 1074)"
    using q p s by (metis (no_types, lifting) mult.assoc of_int_mult)
  then show ?thesis by blast
qed

lemma multiple_abs_ge:
  assumes "d = of_int k * pow2 (- 1074)" "d \<noteq> 0"
  shows "pow2 (- 1074) \<le> \<bar>d\<bar>"
proof -
  have "k \<noteq> 0" using assms by auto
  then have "(1::rat) \<le> \<bar>of_int k\<bar>" by (simp flip: of_int_abs)
  then have "1 * pow2 (- 1074) \<le> \<bar>of_int k\<bar> * pow2 (- 1074)"
    by (intro mult_right_mono) simp_all
  then show ?thesis by (simp add: assms abs_mult)
qed

lemma fsub_sign:
  assumes "isDouble a" "isDouble b"
  shows "isPositive (fsub (Fin a) (Fin b)) = (b < a)
       \<and> isNegative (fsub (Fin a) (Fin b)) = (a < b)"
proof (cases "a = b")
  case True
  then show ?thesis by (simp add: fsub_def toNumber_def)
next
  case False
  obtain ka where ka: "a = of_int ka * pow2 (- 1074)"
    using isDouble_multiple [OF assms(1)] by blast
  obtain kb where kb: "b = of_int kb * pow2 (- 1074)"
    using isDouble_multiple [OF assms(2)] by blast
  have "a - b = of_int (ka - kb) * pow2 (- 1074)"
    by (simp add: ka kb algebra_simps)
  then have "pow2 (- 1074) \<le> \<bar>a - b\<bar>"
    using False by (intro multiple_abs_ge [of _ "ka - kb"]) auto
  from toNumber_sign [OF this] show ?thesis by (simp add: fsub_def)
qed

lemma fsub_int_sign:
  "isPositive (fsub (Fin (of_int a)) (Fin (of_int b))) = (b < a)
   \<and> isNegative (fsub (Fin (of_int a)) (Fin (of_int b))) = (a < b)"
proof (cases "a = b")
  case True
  then show ?thesis by (simp add: fsub_def toNumber_def)
next
  case False
  have "pow2 (- 1074) \<le> pow2 0" by (rule pow2_mono) simp
  also have "pow2 0 = 1" by (simp add: pow2_def)
  also have "(1::rat) \<le> \<bar>of_int (a - b)\<bar>" using False by (simp flip: of_int_abs)
  finally have "pow2 (- 1074) \<le> \<bar>of_int a - of_int b :: rat\<bar>" by simp
  from toNumber_sign [OF this] show ?thesis by (simp add: fsub_def)
qed

lemma pow2_0 [simp]: "pow2 0 = 1"
  by (simp add: pow2_def)

lemma pow2_1 [simp]: "pow2 1 = 2"
  by (simp add: pow2_def)

lemma pow2_m1: "pow2 (- 1) = 1 / 2"
  by (simp add: pow2_def)

lemma pow2_ne0 [simp]: "pow2 e \<noteq> 0"
  using pow2_pos [of e] by linarith

lemma pow2_diff: "pow2 (a - b) = pow2 a / pow2 b"
  by (simp add: pow2_power_int power_int_diff)

lemma pow2_strict_mono: "a < b \<Longrightarrow> pow2 a < pow2 b"
  by (simp add: pow2_power_int power_int_strict_increasing)

lemma toNumber_rel_error:
  assumes lo: "pow2 (- 1022) \<le> \<bar>x\<bar>" and hi: "\<bar>x\<bar> \<le> pow2 1023 * (1 + pow2 (- 53))"
  shows "\<exists>y. toNumber x = Fin y \<and> \<bar>y - x\<bar> \<le> \<bar>x\<bar> * pow2 (- 53)"
proof -
  have x0: "x \<noteq> 0" using lo by auto
  then have ax: "0 < \<bar>x\<bar>" by simp
  define L where "L = ilog2 \<bar>x\<bar>"
  have Lb: "pow2 L \<le> \<bar>x\<bar>" "\<bar>x\<bar> < pow2 (L + 1)"
    using ilog2_bounds [OF ax] by (simp_all add: L_def)
  have "pow2 (- 1022) < pow2 (L + 1)" using lo Lb(2) by linarith
  then have L1: "- 1022 \<le> L" using pow2_less_cancel by fastforce
  have "pow2 (- 53) < pow2 0" by (rule pow2_strict_mono) simp
  then have u1: "pow2 (- 53) < 1" by simp
  have "pow2 1023 * (1 + pow2 (- 53)) < pow2 1023 * 2"
    using u1 by (intro mult_strict_left_mono) simp_all
  also have "\<dots> = pow2 1024" using pow2_add [of 1023 1] by simp
  finally have "pow2 L < pow2 1024" using Lb(1) hi by linarith
  then have L2: "L \<le> 1023" using pow2_less_cancel by fastforce
  define e where "e = L - 52"
  have e: "max (ilog2 \<bar>x\<bar> - 52) (- 1074) = e" using L1 by (simp add: e_def L_def)
  have e2: "e \<le> 971" using L2 by (simp add: e_def)
  define m where "m = roundTiesToEven (\<bar>x\<bar> / pow2 e)"
  have merr: "\<bar>of_int m - \<bar>x\<bar> / pow2 e\<bar> \<le> 1 / 2" unfolding m_def by (rule rte_error)
  have nov: "\<not> (e = 971 \<and> m = 2 ^ 53)"
  proof
    assume a: "e = 971 \<and> m = 2 ^ 53"
    have "\<bar>x\<bar> / pow2 971 \<le> pow2 1023 * (1 + pow2 (- 53)) / pow2 971"
      using hi by (intro divide_right_mono) simp_all
    also have "\<dots> = pow2 (1023 - 971) * (1 + pow2 (- 53))"
      by (simp only: pow2_diff) simp
    also have "\<dots> = pow2 52 + pow2 (52 + (- 53))"
      by (simp only: pow2_add) (simp add: algebra_simps)
    also have "\<dots> = 2 ^ 52 + 1 / 2" by (simp add: pow2_def)
    finally have "\<bar>x\<bar> / pow2 e \<le> 2 ^ 52 + 1 / 2" using a by simp
    then have "(of_int m :: rat) \<le> 2 ^ 52 + 1" using merr by linarith
    then show False using a by simp
  qed
  have tn: "toNumber x = Fin (sgn x * of_int m * pow2 e)"
    unfolding toNumber_nonzero [OF x0] e m_def [symmetric] using e2 nov by simp
  have "sgn x * of_int m * pow2 e - x = sgn x * (of_int m * pow2 e - \<bar>x\<bar>)"
    using x0 by (simp add: algebra_simps sgn_if abs_if)
  then have "\<bar>sgn x * of_int m * pow2 e - x\<bar> = \<bar>of_int m * pow2 e - \<bar>x\<bar>\<bar>"
    using x0 by (simp add: abs_mult sgn_if)
  also have "of_int m * pow2 e - \<bar>x\<bar> = pow2 e * (of_int m - \<bar>x\<bar> / pow2 e)"
    by (simp add: algebra_simps)
  also have "\<bar>pow2 e * (of_int m - \<bar>x\<bar> / pow2 e)\<bar> = pow2 e * \<bar>of_int m - \<bar>x\<bar> / pow2 e\<bar>"
    by (simp add: abs_mult)
  also have "\<dots> \<le> pow2 e * (1 / 2)"
    using merr by (intro mult_left_mono) simp_all
  also have "\<dots> = pow2 L * pow2 (- 53)"
    using pow2_add [of L "- 53"] pow2_add [of "L - 53" 1] by (simp add: e_def)
  also have "\<dots> \<le> \<bar>x\<bar> * pow2 (- 53)"
    using Lb(1) by (intro mult_right_mono) simp_all
  finally show ?thesis using tn by blast
qed

lemma average_times_count:
  fixes t :: rat and n :: nat
  assumes n: "0 < n" and lo: "pow2 (- 1021) * of_nat n \<le> \<bar>t\<bar>" and hi: "\<bar>t\<bar> \<le> pow2 1023"
  shows "\<exists>a p. toNumber (t / of_nat n) = Fin a \<and> toNumber (a * of_nat n) = Fin p
               \<and> \<bar>p - t\<bar> \<le> \<bar>t\<bar> * pow2 (- 51)"
proof -
  define N :: rat where "N = of_nat n"
  define u where "u = pow2 (- 53)"
  have N1: "1 \<le> N" using n by (simp add: N_def)
  have u0: "0 < u" by (simp add: u_def)
  have "pow2 (- 53) \<le> pow2 (- 1)" by (rule pow2_mono) simp
  then have u2: "u \<le> 1 / 2" by (simp add: u_def pow2_m1)
  have u4: "4 * u = pow2 (- 51)" using pow2_add [of 2 "- 53"] by (simp add: u_def pow2_def)
  have t0: "0 \<le> \<bar>t\<bar>" by simp
  have lo': "pow2 (- 1021) \<le> \<bar>t\<bar> / N"
    using lo N1 by (simp add: N_def pos_le_divide_eq)
  have "pow2 (- 1022) \<le> pow2 (- 1021)" by (rule pow2_mono) simp
  then have lo1: "pow2 (- 1022) \<le> \<bar>t / N\<bar>" using lo' N1 by simp
  have "\<bar>t\<bar> * 1 \<le> \<bar>t\<bar> * N" using N1 t0 by (intro mult_left_mono) simp_all
  then have A: "\<bar>t\<bar> / N \<le> \<bar>t\<bar>" using N1 by (simp add: divide_le_eq)
  have "pow2 1023 * 1 \<le> pow2 1023 * (1 + pow2 (- 53))"
    by (intro mult_left_mono) simp_all
  then have B: "pow2 1023 \<le> pow2 1023 * (1 + pow2 (- 53))" by simp
  have C: "\<bar>t / N\<bar> = \<bar>t\<bar> / N" using N1 by simp
  have hi1: "\<bar>t / N\<bar> \<le> pow2 1023 * (1 + pow2 (- 53))"
    using A B C hi by linarith
  obtain a where a: "toNumber (t / N) = Fin a" "\<bar>a - t / N\<bar> \<le> \<bar>t / N\<bar> * u"
    using toNumber_rel_error [OF lo1 hi1] by (auto simp: u_def)
  have "a * N - t = N * (a - t / N)" using N1 by (simp add: field_simps)
  then have "\<bar>a * N - t\<bar> = N * \<bar>a - t / N\<bar>" using N1 by (simp add: abs_mult)
  also have "\<dots> \<le> N * (\<bar>t / N\<bar> * u)" using a(2) N1 by (intro mult_left_mono) simp_all
  also have "\<dots> = \<bar>t\<bar> * u" using N1 by simp
  finally have E1: "\<bar>a * N - t\<bar> \<le> \<bar>t\<bar> * u" .
  have tu: "\<bar>t\<bar> * u \<le> \<bar>t\<bar> * (1 / 2)" using u2 t0 by (intro mult_left_mono) simp_all
  have up: "\<bar>a * N\<bar> \<le> \<bar>t\<bar> + \<bar>t\<bar> * u" using E1 by linarith
  have dn: "\<bar>t\<bar> - \<bar>t\<bar> * u \<le> \<bar>a * N\<bar>" using E1 by linarith
  have "pow2 (- 1021) * 1 \<le> pow2 (- 1021) * N" using N1 by (intro mult_left_mono) simp_all
  then have "pow2 (- 1021) \<le> \<bar>t\<bar>" using lo unfolding N_def by linarith
  moreover have "pow2 (- 1021) = 2 * pow2 (- 1022)" using pow2_add [of 1 "- 1022"] by simp
  ultimately have lo2: "pow2 (- 1022) \<le> \<bar>a * N\<bar>" using dn tu by linarith
  have "\<bar>t\<bar> + \<bar>t\<bar> * u = \<bar>t\<bar> * (1 + u)" by (simp add: algebra_simps)
  also have "\<dots> \<le> pow2 1023 * (1 + u)" using hi u0 by (intro mult_right_mono) simp_all
  finally have hi2: "\<bar>a * N\<bar> \<le> pow2 1023 * (1 + pow2 (- 53))" using up by (simp add: u_def)
  obtain p where p: "toNumber (a * N) = Fin p" "\<bar>p - a * N\<bar> \<le> \<bar>a * N\<bar> * u"
    using toNumber_rel_error [OF lo2 hi2] by (auto simp: u_def)
  have "\<bar>a * N\<bar> \<le> \<bar>t\<bar> * 2" using up tu by linarith
  then have "\<bar>a * N\<bar> * u \<le> \<bar>t\<bar> * 2 * u" using u0 by (intro mult_right_mono) simp_all
  then have "\<bar>p - a * N\<bar> \<le> \<bar>t\<bar> * 2 * u" using p(2) by linarith
  then have "\<bar>p - t\<bar> \<le> \<bar>t\<bar> * 2 * u + \<bar>t\<bar> * u" using E1 by linarith
  also have "\<dots> \<le> \<bar>t\<bar> * (4 * u)" using t0 u0 by (simp add: algebra_simps)
  finally have "\<bar>p - t\<bar> \<le> \<bar>t\<bar> * pow2 (- 51)" by (simp only: u4)
  then show ?thesis using a(1) p(1) by (auto simp: N_def)
qed

text \<open>
  An integer below \<open>2 ^ 53\<close> in magnitude is a double: rounding leaves it as it is.
\<close>

lemma rte_of_int: "roundTiesToEven (of_int j) = j"
  by (simp add: roundTiesToEven_def Let_def)

lemma toNumber_of_int:
  assumes "\<bar>k\<bar> < 2 ^ 53"
  shows "toNumber (of_int k) = Fin (of_int k)"
proof (cases "k = 0")
  case True
  then show ?thesis by (simp add: toNumber_def)
next
  case False
  define x :: rat where "x = of_int k"
  define L where "L = ilog2 \<bar>x\<bar>"
  have x0: "x \<noteq> 0" using False by (simp add: x_def)
  have ax1: "1 \<le> \<bar>x\<bar>" using False by (simp add: x_def flip: of_int_abs)
  have "of_int \<bar>k\<bar> < (of_int (2 ^ 53) :: rat)" using assms by (simp only: of_int_less_iff)
  then have ax2: "\<bar>x\<bar> < pow2 53" by (simp add: x_def pow2_def)
  have b: "pow2 L \<le> \<bar>x\<bar>" "\<bar>x\<bar> < pow2 (L + 1)"
    using ilog2_bounds [of "\<bar>x\<bar>"] x0 by (simp_all add: L_def)
  have "pow2 0 < pow2 (L + 1)" using ax1 b(2) by simp
  then have L0: "0 \<le> L" using pow2_less_cancel [of 0 "L + 1"] by simp
  have "pow2 L < pow2 53" using b(1) ax2 by linarith
  then have L52: "L \<le> 52" using pow2_less_cancel [of L 53] by simp
  define j where "j = nat (52 - L)"
  have e: "max (L - 52) (- 1074) = - int j" using L0 L52 by (simp add: j_def)
  have p: "pow2 (- int j) = 1 / 2 ^ j" by (simp add: pow2_neg)
  have sc: "\<bar>x\<bar> / pow2 (- int j) = of_int (\<bar>k\<bar> * 2 ^ j)" by (simp add: p x_def)
  have r: "roundTiesToEven (\<bar>x\<bar> / pow2 (- int j)) = \<bar>k\<bar> * 2 ^ j"
    unfolding sc by (rule rte_of_int)
  have v: "sgn x * of_int (\<bar>k\<bar> * 2 ^ j) * pow2 (- int j) = x"
    by (simp add: p x_def sgn_if)
  have "toNumber x = Fin (sgn x * of_int (\<bar>k\<bar> * 2 ^ j) * pow2 (- int j))"
    using toNumber_nonzero [OF x0] unfolding L_def [symmetric] e r by simp
  then show ?thesis unfolding v by (simp add: x_def)
qed

section \<open>Sorting with a comparator\<close>

lemma mset_insertSorted: "mset (insertSorted cmp x ys) = add_mset x (mset ys)"
  by (induction ys) auto

lemma mset_sortWith: "mset (sortWith cmp xs) = mset xs"
  by (induction xs) (auto simp: sortWith_def mset_insertSorted)

lemma set_insertSorted: "set (insertSorted cmp x ys) = insert x (set ys)"
  by (induction ys) auto

lemma set_sortWith: "set (sortWith cmp xs) = set xs"
  by (induction xs) (auto simp: sortWith_def set_insertSorted)

lemma length_sortWith: "length (sortWith cmp xs) = length xs"
  using mset_sortWith [of cmp xs] by (metis size_mset)

lemma sorted_insertSorted:
  assumes link: "\<And>a b. a \<in> S \<Longrightarrow> b \<in> S \<Longrightarrow> R a b = (\<not> isPositive (cmp a b))"
    and tot: "\<And>a b. a \<in> S \<Longrightarrow> b \<in> S \<Longrightarrow> R a b \<or> R b a"
    and tr: "\<And>a b c. a \<in> S \<Longrightarrow> b \<in> S \<Longrightarrow> c \<in> S \<Longrightarrow> R a b \<Longrightarrow> R b c \<Longrightarrow> R a c"
    and x: "x \<in> S"
  shows "set ys \<subseteq> S \<Longrightarrow> sorted_wrt R ys \<Longrightarrow> sorted_wrt R (insertSorted cmp x ys)"
proof (induction ys)
  case Nil
  then show ?case by simp
next
  case (Cons y ys)
  then have y: "y \<in> S" and ys: "set ys \<subseteq> S" by auto
  show ?case
  proof (cases "isPositive (cmp x y)")
    case True
    then have "\<not> R x y" using link [OF x y] by simp
    then have yx: "R y x" using tot [OF x y] by blast
    have "sorted_wrt R (insertSorted cmp x ys)" using Cons ys by simp
    moreover have "\<forall>z \<in> set (insertSorted cmp x ys). R y z"
      using Cons.prems yx by (auto simp: set_insertSorted)
    ultimately show ?thesis using True by simp
  next
    case False
    then have xy: "R x y" using link [OF x y] by simp
    have "\<forall>z \<in> set ys. R x z"
    proof
      fix z assume z: "z \<in> set ys"
      then have "R y z" using Cons.prems by auto
      then show "R x z" using tr [OF x y _ xy] z ys by blast
    qed
    then show ?thesis using False xy Cons.prems by simp
  qed
qed

lemma sorted_sortWith:
  assumes link: "\<And>a b. a \<in> S \<Longrightarrow> b \<in> S \<Longrightarrow> R a b = (\<not> isPositive (cmp a b))"
    and tot: "\<And>a b. a \<in> S \<Longrightarrow> b \<in> S \<Longrightarrow> R a b \<or> R b a"
    and tr: "\<And>a b c. a \<in> S \<Longrightarrow> b \<in> S \<Longrightarrow> c \<in> S \<Longrightarrow> R a b \<Longrightarrow> R b c \<Longrightarrow> R a c"
  shows "set xs \<subseteq> S \<Longrightarrow> sorted_wrt R (sortWith cmp xs)"
proof (induction xs)
  case Nil
  then show ?case by (simp add: sortWith_def)
next
  case (Cons x xs)
  then have "sorted_wrt R (sortWith cmp xs)" and "x \<in> S" and "set (sortWith cmp xs) \<subseteq> S"
    by (auto simp: set_sortWith)
  then have "sorted_wrt R (insertSorted cmp x (sortWith cmp xs))"
    using sorted_insertSorted [of S R cmp x "sortWith cmp xs"] link tot tr by blast
  then show ?case by (simp add: sortWith_def)
qed

lemma isPositive_fneg: "isPositive (fneg v) = isNegative v"
  by (cases v) auto

lemma ordered_sortWith_compareFn:
  assumes wf: "\<forall>r \<in> set rs. wellFormed env r" and cc: "consistentCollation env"
  shows "orderedBy env (sortField st) (sortDirection st) (sortWith (compareFn env st) rs)"
proof -
  let ?S = "{r. wellFormed env r}"
  have sub: "set rs \<subseteq> ?S" using wf by auto
  have anti: "\<And>a b. (localeCompare env a b < 0) = (0 < localeCompare env b a)"
    and ctr: "\<And>a b c. localeCompare env a b \<le> 0 \<Longrightarrow> localeCompare env b c \<le> 0
                 \<Longrightarrow> localeCompare env a c \<le> 0"
    using cc unfolding consistentCollation_def by blast+
  have flip: "\<And>a b. (localeCompare env b a \<le> 0) = (0 \<le> localeCompare env a b)"
    using anti by (metis not_less)
  have amt: "\<And>a b. a \<in> ?S \<Longrightarrow> b \<in> ?S \<Longrightarrow>
      \<exists>x y. amount a = Fin x \<and> amount b = Fin y \<and> isDouble x \<and> isDouble y"
    by (auto simp: wellFormed_def validAmount_def split: number.splits)
  have dt: "\<And>a b. a \<in> ?S \<Longrightarrow> b \<in> ?S \<Longrightarrow>
      \<exists>s t. newDate env (date a) = Some s \<and> newDate env (date b) = Some t"
    by (auto simp: wellFormed_def validDate_def)
  show ?thesis
  proof (cases "sortDirection st")
    case Asc
    have "sorted_wrt (keyLe env (sortField st)) (sortWith (compareFn env st) rs)"
    proof (rule sorted_sortWith [where S = ?S, OF _ _ _ sub])
      fix a b assume ab: "a \<in> ?S" "b \<in> ?S"
      from amt [OF ab] dt [OF ab]
      show "keyLe env (sortField st) a b = (\<not> isPositive (compareFn env st a b))"
        using Asc fsub_sign fsub_int_sign
        by (cases "sortField st")
           (auto simp: keyLe_def compareFn_def comparison_def getTime_def numLe_def)
    next
      fix a b assume ab: "a \<in> ?S" "b \<in> ?S"
      from amt [OF ab] dt [OF ab]
      show "keyLe env (sortField st) a b \<or> keyLe env (sortField st) b a"
        using anti [of "vendor a" "vendor b"] anti [of "category a" "category b"]
        by (cases "sortField st") (auto simp: keyLe_def numLe_def)
    next
      fix a b c assume abc: "a \<in> ?S" "b \<in> ?S" "c \<in> ?S"
        and le: "keyLe env (sortField st) a b" "keyLe env (sortField st) b c"
      from amt [OF abc(1,2)] amt [OF abc(2,3)] dt [OF abc(1,2)] dt [OF abc(2,3)] le
      show "keyLe env (sortField st) a c"
        using ctr [of "vendor a" "vendor b" "vendor c"]
          ctr [of "category a" "category b" "category c"]
        by (cases "sortField st") (auto simp: keyLe_def numLe_def)
    qed
    then show ?thesis using Asc by (simp add: orderedBy_def)
  next
    case Desc
    have "sorted_wrt (\<lambda>a b. keyLe env (sortField st) b a) (sortWith (compareFn env st) rs)"
    proof (rule sorted_sortWith [where S = ?S, OF _ _ _ sub])
      fix a b assume ab: "a \<in> ?S" "b \<in> ?S"
      from amt [OF ab] dt [OF ab]
      show "keyLe env (sortField st) b a = (\<not> isPositive (compareFn env st a b))"
        using Desc fsub_sign fsub_int_sign flip
        by (cases "sortField st")
           (auto simp: keyLe_def compareFn_def comparison_def getTime_def numLe_def
              isPositive_fneg)
    next
      fix a b assume ab: "a \<in> ?S" "b \<in> ?S"
      from amt [OF ab] dt [OF ab]
      show "keyLe env (sortField st) b a \<or> keyLe env (sortField st) a b"
        using anti [of "vendor a" "vendor b"] anti [of "category a" "category b"]
        by (cases "sortField st") (auto simp: keyLe_def numLe_def)
    next
      fix a b c assume abc: "a \<in> ?S" "b \<in> ?S" "c \<in> ?S"
        and le: "keyLe env (sortField st) b a" "keyLe env (sortField st) c b"
      from amt [OF abc(1,2)] amt [OF abc(2,3)] dt [OF abc(1,2)] dt [OF abc(2,3)] le
      show "keyLe env (sortField st) c a"
        using ctr [of "vendor c" "vendor b" "vendor a"]
          ctr [of "category c" "category b" "category a"]
        by (cases "sortField st") (auto simp: keyLe_def numLe_def)
    qed
    then show ?thesis using Desc by (simp add: orderedBy_def)
  qed
qed

section \<open>The median\<close>




lemma computeMedian_defined: "rs \<noteq> [] \<Longrightarrow> \<exists>m. computeMedian rs = Inr m"
proof -
  assume "rs \<noteq> []"
  then have n0: "0 < int (length rs)" by simp
  let ?ss = "sortWith (\<lambda>a b. fsub (amount a) (amount b)) rs"
  have len: "int (length ?ss) = int (length rs)" by (simp add: length_sortWith)
  have "\<And>i. 0 \<le> i \<Longrightarrow> i < int (length rs) \<Longrightarrow> \<exists>v. amountAt ?ss i = Inr v"
    using len by (simp add: amountAt_def)
  moreover have "int (length rs) mod 2 = 0 \<Longrightarrow> 0 \<le> int (length rs) div 2 - 1"
    using n0 by presburger
  moreover have "int (length rs) div 2 - 1 < int (length rs)" "0 \<le> int (length rs) div 2"
    "int (length rs) div 2 < int (length rs)"
    using n0 by presburger+
  ultimately show ?thesis
    unfolding computeMedian_def Let_def
    by (metis (no_types, lifting) sum.simps(6))
qed


section \<open>The vendor counts\<close>

text \<open>
  Integers below \<open>2 ^ 53\<close> in magnitude are doubles, so a count is exact. For vendors
  that are not names inherited from \<open>Object.prototype\<close>, the object of the counts
  holds each vendor of the record set once, with the number of its records; the sort of
  its entries puts first an entry of the greatest count.
\<close>

lemma count_step:
  assumes "n < 2 ^ 32"
  shows "fadd (truthyOr0 (Fin (of_nat n))) (Fin 1) = Fin (of_nat (Suc n))"
proof -
  have t: "truthyOr0 (Fin (of_nat n)) = Fin (of_nat n)" by (simp add: truthyOr0_def)
  have "int n + 1 < 2 ^ 53" using assms by simp
  then have "toNumber (of_int (int n + 1)) = Fin (of_int (int n + 1))"
    by (intro toNumber_of_int) simp
  then show ?thesis unfolding t by (simp add: add.commute)
qed

lemma map_of_replace:
  "map_of (map (\<lambda>(k', p'). if k' = k then (k', p) else (k', p')) acc) k''
   = (if k'' = k then (if map_of acc k = None then None else Some p) else map_of acc k'')"
  by (induction acc) auto

lemma map_of_assign:
  assumes "k \<noteq> ''__proto__''"
  shows "map_of (assign acc k p) k' = (if k' = k then Some p else map_of acc k')"
proof (cases "map_of acc k = None")
  case True
  then show ?thesis using assms by (auto simp: assign_def map_add_def split: option.splits)
next
  case False
  then show ?thesis using assms by (auto simp: assign_def map_of_replace)
qed

lemma keys_assign:
  assumes "k \<noteq> ''__proto__''"
  shows "map fst (assign acc k p) = (if map_of acc k = None then map fst acc @ [k] else map fst acc)"
proof -
  have "map fst (map (\<lambda>(k', p'). if k' = k then (k', p) else (k', p')) acc) = map fst acc"
    by (induction acc) auto
  then show ?thesis using assms by (simp add: assign_def)
qed

lemma vendorCounts_snoc:
  "vendorCounts (rs @ [r])
   = assign (vendorCounts rs) (vendor r) (accumulated (vendorCounts rs) (vendor r) (Fin 1))"
  by (simp add: vendorCounts_def)

lemma vendorCounts_invariant:
  assumes "\<forall>r \<in> set rs. vendor r \<notin> set objectPrototypeNames" and "length rs < 2 ^ 32"
  shows "distinct (map fst (vendorCounts rs))
       \<and> (\<forall>k. map_of (vendorCounts rs) k
              = (if k \<in> vendor ` set rs
                 then Some (NumberValue (Fin (of_nat (count_list (map vendor rs) k))))
                 else None))"
  using assms
proof (induction rs rule: rev_induct)
  case Nil
  then show ?case by (simp add: vendorCounts_def)
next
  case (snoc r rs)
  let ?obj = "vendorCounts rs"
  let ?v = "vendor r"
  have own: "?v \<notin> set objectPrototypeNames" using snoc.prems(1) by simp
  then have np: "?v \<noteq> ''__proto__''" by (auto simp: objectPrototypeNames_def)
  have len: "length rs < 2 ^ 32" using snoc.prems(2) by simp
  have ih: "distinct (map fst ?obj)"
    "\<And>k. map_of ?obj k
        = (if k \<in> vendor ` set rs
           then Some (NumberValue (Fin (of_nat (count_list (map vendor rs) k)))) else None)"
    using snoc.IH snoc.prems(1) len by auto
  have cl: "count_list (map vendor rs) ?v < 2 ^ 32"
    using count_le_length [of "map vendor rs" ?v] len by simp
  have acc: "accumulated ?obj ?v (Fin 1)
             = NumberValue (Fin (of_nat (Suc (count_list (map vendor rs) ?v))))"
  proof (cases "?v \<in> vendor ` set rs")
    case True
    then show ?thesis using count_step [OF cl] by (simp add: accumulated_def ih(2))
  next
    case False
    then have "count_list (map vendor rs) ?v = 0" by (simp add: count_list_0_iff)
    then show ?thesis using False own count_step [of 0]
      by (simp add: accumulated_def ih(2) truthyOr0_def)
  qed
  have d: "distinct (map fst (vendorCounts (rs @ [r])))"
    unfolding vendorCounts_snoc keys_assign [OF np]
    using ih(1) by (auto simp: map_of_eq_None_iff)
  have m: "map_of (vendorCounts (rs @ [r])) k
           = (if k \<in> vendor ` set (rs @ [r])
              then Some (NumberValue (Fin (of_nat (count_list (map vendor (rs @ [r])) k))))
              else None)" for k
    unfolding vendorCounts_snoc map_of_assign [OF np] acc
    by (auto simp: ih(2))
  from d m show ?case by blast
qed

lemma set_entries: "set (entries obj) = set obj"
  by (auto simp: entries_def)

lemma computeTopVendor_most_frequent:
  assumes ne: "rs \<noteq> []"
    and own: "\<forall>r \<in> set rs. vendor r \<notin> set objectPrototypeNames"
    and len: "length rs < 2 ^ 32"
  shows "computeTopVendor rs \<in> vendor ` set rs
       \<and> (\<forall>w. count_list (map vendor rs) w \<le> count_list (map vendor rs) (computeTopVendor rs))"
proof -
  define obj where "obj = vendorCounts rs"
  define cnt where "cnt = (\<lambda>e :: string \<times> property. count_list (map vendor rs) (fst e))"
  define cmp where
    "cmp = (\<lambda>(ka :: string, a) (kb :: string, b). fsub (asNumber b) (asNumber a))"
  define R where "R = (\<lambda>a b. cnt b \<le> cnt a)"
  note inv = vendorCounts_invariant [OF own len, folded obj_def]
  have d: "distinct (map fst obj)" using inv by blast
  have m: "map_of obj k
           = (if k \<in> vendor ` set rs
              then Some (NumberValue (Fin (of_nat (count_list (map vendor rs) k)))) else None)" for k
    using inv by blast
  have mem: "fst e \<in> vendor ` set rs \<and> asNumber (snd e) = Fin (of_nat (cnt e))"
    if "e \<in> set obj" for e
  proof -
    have ms: "map_of obj (fst e) = Some (snd e)" using that d by simp
    have 1: "fst e \<in> vendor ` set rs" using ms m [of "fst e"] by (auto split: if_splits)
    then have "snd e = NumberValue (Fin (of_nat (cnt e)))"
      using ms m [of "fst e"] by (simp add: cnt_def)
    then have "asNumber (snd e) = Fin (of_nat (cnt e))" by (simp add: asNumber_def)
    with 1 show ?thesis by blast
  qed
  have has: "(w, NumberValue (Fin (of_nat (count_list (map vendor rs) w)))) \<in> set obj"
    if "w \<in> vendor ` set rs" for w
    using m [of w] that by (simp add: map_of_SomeD)
  have link: "R a b = (\<not> isPositive (cmp a b))" if "a \<in> set obj" "b \<in> set obj" for a b
  proof -
    have "cmp a b = fsub (asNumber (snd b)) (asNumber (snd a))"
      by (cases a; cases b) (simp add: cmp_def)
    then have "cmp a b = fsub (Fin (of_int (int (cnt b)))) (Fin (of_int (int (cnt a))))"
      using mem [OF that(1)] mem [OF that(2)] by simp
    then show ?thesis using fsub_int_sign [of "int (cnt b)" "int (cnt a)"]
      by (auto simp: R_def)
  qed
  have tot: "R a b \<or> R b a" for a b by (auto simp: R_def)
  have tr: "R a b \<Longrightarrow> R b c \<Longrightarrow> R a c" for a b c by (auto simp: R_def)
  define xs where "xs = sortWith cmp (entries obj)"
  have sx: "set xs = set obj" by (simp add: xs_def set_sortWith set_entries)
  have "sorted_wrt R (sortWith cmp (entries obj))"
  proof (rule sorted_sortWith [where S = "set obj" and R = R])
    show "R a b = (\<not> isPositive (cmp a b))" if "a \<in> set obj" "b \<in> set obj" for a b
      using link that by blast
    show "R a b \<or> R b a" if "a \<in> set obj" "b \<in> set obj" for a b
      by (rule tot)
    show "R a c" if "a \<in> set obj" "b \<in> set obj" "c \<in> set obj" "R a b" "R b c" for a b c
      using tr that by blast
    show "set (entries obj) \<subseteq> set obj" by (simp add: set_entries)
  qed
  then have so: "sorted_wrt R xs" by (simp add: xs_def)
  obtain r0 where "r0 \<in> set rs" using ne by (cases rs) auto
  then have "set obj \<noteq> {}" using has [of "vendor r0"] by auto
  then have "xs \<noteq> []" using sx by auto
  then obtain e rest where x: "xs = e # rest" by (cases xs) auto
  have top: "computeTopVendor rs = fst e"
    unfolding computeTopVendor_def obj_def [symmetric] cmp_def [symmetric] xs_def [symmetric] x
    by (cases e) simp
  have e: "e \<in> set obj" using sx x by auto
  have 1: "computeTopVendor rs \<in> vendor ` set rs" using mem [OF e] top by simp
  have 2: "count_list (map vendor rs) w \<le> count_list (map vendor rs) (computeTopVendor rs)" for w
  proof (cases "w \<in> vendor ` set rs")
    case True
    let ?e' = "(w, NumberValue (Fin (of_nat (count_list (map vendor rs) w))))"
    have "?e' \<in> set xs" using has [OF True] sx by simp
    then have "?e' = e \<or> ?e' \<in> set rest" using x by auto
    then have "R e ?e'" using so x tot by auto
    then show ?thesis by (simp add: R_def cnt_def top)
  next
    case False
    then have "count_list (map vendor rs) w = 0" by (simp add: count_list_0_iff)
    then show ?thesis by simp
  qed
  from 1 2 show ?thesis by blast
qed

text \<open>
  The assumption on the names is needed: reading the name constructor finds the
  inherited member of \<open>Object.prototype\<close>, and the count of such a vendor is a string.
\<close>

lemma inheritedSample_counts:
  "vendorCounts inheritedSample
   = [(''constructor'', StringValue), (''Acme'', NumberValue (Fin 2))]"
  by code_simp

section \<open>The calendar\<close>

text \<open>
  The year of a day is the year that contains it: the estimate of \<^const>\<open>YearFromDay\<close>,
  corrected by one, is the year that starts on or before the day while the next year starts
  after it, which is how ECMAScript defines the year of a time value.
\<close>

lemma int_div_bounds:
  fixes z k :: int
  assumes "0 < k"
  shows "k * (z div k) \<le> z \<and> z < k * (z div k) + k"
proof -
  have "z = k * (z div k) + z mod k" by simp
  moreover have "0 \<le> z mod k" "z mod k < k" using assms by simp_all
  ultimately show ?thesis by linarith
qed

lemma year_estimate_lower:
  fixes k a b c d :: int
  assumes "146097 * k \<le> d * 400" "4 * a \<le> k" "k + 68 < 100 * b + 100" "400 * c \<le> k + 368"
  shows "365 * (k - 1) + a - b + c \<le> d"
proof -
  have "400 * a \<le> 100 * k" using assms(2) by simp
  moreover have "4 * k \<le> 400 * b + 124" using assms(3) by simp
  ultimately have "400 * (365 * (k - 1) + a - b + c) \<le> 400 * d - 145508"
    using assms(1,4) by (simp add: algebra_simps)
  then show ?thesis by simp
qed

lemma year_estimate_upper:
  fixes k a b c d :: int
  assumes "d * 400 < 146097 * k + 146097" "k + 3 < 4 * a + 4" "100 * b \<le> k + 71"
    "k + 371 < 400 * c + 400"
  shows "d < 365 * (k + 2) + a - b + c"
proof -
  have "100 * k \<le> 400 * a" using assms(2) by simp
  moreover have "400 * b \<le> 4 * k + 284" using assms(3) by simp
  ultimately have "400 * d + 145000 \<le> 400 * (365 * (k + 2) + a - b + c)"
    using assms(1,4) by (simp add: algebra_simps)
  then show ?thesis by simp
qed

lemma YearFromDay_lower: "DayFromYear (YearFromDay d) \<le> d"
proof -
  define k where "k = (d * 400) div 146097"
  define a where "a = k div 4"
  define b where "b = (k + 68) div 100"
  define c where "c = (k + 368) div 400"
  have k: "146097 * k \<le> d * 400" using int_div_bounds [of 146097 "d * 400"] by (simp add: k_def)
  have a: "4 * a \<le> k" using int_div_bounds [of 4 k] by (simp add: a_def)
  have b: "k + 68 < 100 * b + 100" using int_div_bounds [of 100 "k + 68"] by (simp add: b_def)
  have c: "400 * c \<le> k + 368" using int_div_bounds [of 400 "k + 368"] by (simp add: c_def)
  have "DayFromYear (1970 + k - 1) = 365 * (k - 1) + a - b + c"
    by (simp add: DayFromYear_def a_def b_def c_def add.commute)
  moreover have "365 * (k - 1) + a - b + c \<le> d" using k a b c by (rule year_estimate_lower)
  ultimately have "DayFromYear (1970 + k - 1) \<le> d" by simp
  then show ?thesis
    unfolding YearFromDay_def Let_def k_def [symmetric] by auto
qed

lemma YearFromDay_upper: "d < DayFromYear (YearFromDay d + 1)"
proof -
  define k where "k = (d * 400) div 146097"
  define a where "a = (k + 3) div 4"
  define b where "b = (k + 71) div 100"
  define c where "c = (k + 371) div 400"
  have k: "d * 400 < 146097 * k + 146097"
    using int_div_bounds [of 146097 "d * 400"] by (simp add: k_def)
  have a: "k + 3 < 4 * a + 4" using int_div_bounds [of 4 "k + 3"] by (simp add: a_def)
  have b: "100 * b \<le> k + 71" using int_div_bounds [of 100 "k + 71"] by (simp add: b_def)
  have c: "k + 371 < 400 * c + 400" using int_div_bounds [of 400 "k + 371"] by (simp add: c_def)
  have "DayFromYear (1970 + k + 2) = 365 * (k + 2) + a - b + c"
    by (simp add: DayFromYear_def a_def b_def c_def add.commute)
  moreover have "d < 365 * (k + 2) + a - b + c" using k a b c by (rule year_estimate_upper)
  ultimately have "d < DayFromYear (1970 + k + 2)" by simp
  then show ?thesis
    unfolding YearFromDay_def Let_def k_def [symmetric] by (auto simp: algebra_simps)
qed

section \<open>The statistics of a non-empty record set\<close>

lemma MonthFromTime_range: "0 \<le> MonthFromTime t \<and> MonthFromTime t \<le> 11"
proof -
  have "length (tl (monthStarts l)) = 11" for l
    by (simp add: monthStarts_def Let_def)
  then have "length (filter P (tl (monthStarts l))) \<le> 11" for P l
    by (metis length_filter_le)
  then show ?thesis by (simp add: MonthFromTime_def)
qed

lemma targetDate_current:
  assumes "\<not> (0 \<le> y \<and> y \<le> 99)" "0 \<le> m" "m \<le> 11"
  shows "targetDate y m = (y, m)"
  using assms by (auto simp: targetDate_def Let_def)

lemma stats_nonempty:
  assumes "rs \<noteq> []"
  shows "\<exists>med. computeMedian rs = Inr med \<and>
     stats env now rs =
       Inr \<lparr>totalReceipts = length rs, totalAmount = sumAmounts rs,
            averageAmount = fdiv (sumAmounts rs) (Fin (of_nat (length rs))),
            medianAmount = med,
            topVendor = computeTopVendor rs,
            currentMonthSpend = monthSpend env rs (MonthFromTime (LocalTime env now))
                                  (YearFromTime (LocalTime env now)),
            lastMonthSpend = monthSpend env rs
               (if MonthFromTime (LocalTime env now) = 0 then 11
                else MonthFromTime (LocalTime env now) - 1)
               (if MonthFromTime (LocalTime env now) = 0 then YearFromTime (LocalTime env now) - 1
                else YearFromTime (LocalTime env now)),
            categoryBreakdown = computeBreakdown rs,
            monthlyTrend = computeTrend env now rs\<rparr>"
proof -
  obtain med where "computeMedian rs = Inr med"
    using computeMedian_defined [OF assms] by blast
  then show ?thesis using assms by (simp add: stats_def Let_def)
qed

lemma computeTrend_length: "length (computeTrend env now rs) = 6"
  by (simp add: computeTrend_def Let_def)

lemma computeTrend_last:
  assumes "\<not> (0 \<le> YearFromTime (LocalTime env now) \<and> YearFromTime (LocalTime env now) \<le> 99)"
  shows "snd (computeTrend env now rs ! 5)
         = monthSpend env rs (MonthFromTime (LocalTime env now)) (YearFromTime (LocalTime env now))"
  using targetDate_current [OF assms, of "MonthFromTime (LocalTime env now)"]
    MonthFromTime_range [of "LocalTime env now"]
  by (simp add: computeTrend_def Let_def)

section \<open>Fixed notation and the lines of the export\<close>

lemma isDigit_digitChar: "d < 10 \<Longrightarrow> isDigit (digitChar d)"
proof -
  assume "d < 10"
  then have "d \<in> {0, 1, 2, 3, 4, 5, 6, 7, 8, 9}" by auto
  then show ?thesis by (auto simp: digitChar_def isDigit_def)
qed

lemma digitsOf_digits: "list_all isDigit (digitsOf n)"
proof (induction n rule: digitsOf.induct)
  case (1 n)
  show ?case
  proof (cases "n < 10")
    case True
    then show ?thesis by (subst digitsOf.simps) (simp add: isDigit_digitChar)
  next
    case False
    then show ?thesis using 1 by (subst digitsOf.simps) (simp add: isDigit_digitChar)
  qed
qed

lemma digitsOf_nonempty: "digitsOf n \<noteq> []"
  by (subst digitsOf.simps) simp

lemma isDigit_zero: "isDigit (CHR ''0'')"
  by (simp add: isDigit_def)

lemma padStart_digits: "list_all isDigit s \<Longrightarrow> list_all isDigit (padStart k s)"
  by (auto simp: padStart_def list_all_iff isDigit_zero)

lemma length_padStart: "k \<le> length (padStart k s)"
  by (simp add: padStart_def)

lemma twoDecimals_fixed:
  assumes d: "list_all isDigit m" and k: "3 \<le> length m" and sg: "sg = [] \<or> sg = ''-''"
  shows "twoDecimals (sg @ take (length m - 2) m @ ''.'' @ drop (length m - 2) m)"
proof -
  let ?k = "length m"
  let ?body = "take (?k - 2) m @ ''.'' @ drop (?k - 2) m"
  have lb: "length ?body = ?k + 1" using k by simp
  have "m \<noteq> []" using k by auto
  then obtain c cs where m: "m = c # cs" by (cases m) auto
  have c: "isDigit c" using d m by simp
  have hd: "take 1 ?body = [c]" using k m by (cases "?k - 2") auto
  have "c \<noteq> CHR ''-''" using c by (auto simp: isDigit_def)
  then have t: "(if take 1 (sg @ ?body) = ''-'' then drop 1 (sg @ ?body) else sg @ ?body) = ?body"
    using sg hd by auto
  have 1: "take (?k + 1 - 3) ?body = take (?k - 2) m" using k by simp
  have 2: "?body ! (?k + 1 - 3) = CHR ''.''" using k by (simp add: nth_append)
  have 3: "drop (?k + 1 - 2) ?body = drop (?k - 2) m" using k by simp
  have 4: "list_all isDigit (take (?k - 2) m)" "list_all isDigit (drop (?k - 2) m)"
    using d by (auto simp: list_all_iff dest: in_set_takeD in_set_dropD)
  show ?thesis
    unfolding twoDecimals_def Let_def t lb using 1 2 3 4 k by simp
qed

lemma toFixed_twoDecimals:
  assumes "\<bar>q\<bar> < 10 ^ 21"
  shows "twoDecimals (toFixed env (Fin q) 2)"
proof -
  let ?m = "padStart 3 (digitsOf (nat \<lfloor>\<bar>q\<bar> * 10 ^ 2 + 1 / 2\<rfloor>))"
  have d: "list_all isDigit ?m" by (intro padStart_digits digitsOf_digits)
  have k: "3 \<le> length ?m" by (rule length_padStart)
  have "toFixed env (Fin q) 2
        = (if q < 0 then ''-'' else []) @ take (length ?m - 2) ?m @ ''.'' @ drop (length ?m - 2) ?m"
    using assms by (simp add: toFixed_def Let_def)
  then show ?thesis using twoDecimals_fixed [OF d k, of "if q < 0 then ''-'' else []"] by simp
qed

lemma toFixed_5: "toFixed env (Fin 5) 2 = ''5.00''"
  by code_simp

lemma joinWith_two: "joinWith sep [a, b] = a @ sep @ b"
  by simp

lemma csvRow_fields:
  "csvRow env r = date r @ '','' @ [CHR 0x22] @ vendor r @ [CHR 0x22] @ '','' @ toFixed env (amount r) 2
      @ '','' @ category r @ '','' @ [CHR 0x22] @ fileName r @ [CHR 0x22] @ '','' @ toFixed env (confidence r) 2"
  by (simp add: csvRow_def csvFields_def quoted_def)

lemma header_line: "joinWith '','' headers = ''Date,Vendor,Amount,Category,File,Confidence''"
  by (simp add: headers_def)

text \<open>
  A number in fixed notation holds no line feed, so the line of a record whose fields
  hold none is a single line; and splitting at the line feeds undoes the joining of
  single lines.
\<close>

lemma not_isDigit_line_feed: "\<not> isDigit (CHR 0x0A)"
  by (simp add: isDigit_def)

lemma padStart_digitsOf_singleLine: "CHR 0x0A \<notin> set (padStart k (digitsOf n))"
  using padStart_digits [OF digitsOf_digits, of k n] not_isDigit_line_feed
  by (auto simp: list_all_iff)

lemma toFixed_singleLine:
  assumes "\<bar>q\<bar> < 10 ^ 21"
  shows "singleLine (toFixed env (Fin q) 2)"
proof -
  let ?m = "padStart 3 (digitsOf (nat \<lfloor>\<bar>q\<bar> * 10 ^ 2 + 1 / 2\<rfloor>))"
  have m: "CHR 0x0A \<notin> set ?m" by (rule padStart_digitsOf_singleLine)
  have t: "CHR 0x0A \<notin> set (take n ?m)" and d: "CHR 0x0A \<notin> set (drop n ?m)" for n
    using m by (auto dest: in_set_takeD in_set_dropD)
  have "toFixed env (Fin q) 2
        = (if q < 0 then ''-'' else []) @ take (length ?m - 2) ?m @ ''.'' @ drop (length ?m - 2) ?m"
    using assms by (simp add: toFixed_def Let_def)
  then show ?thesis using t d by (simp add: singleLine_def)
qed

lemma fixedNotation_toFixed:
  assumes "fixedNotation x"
  shows "twoDecimals (toFixed env x 2) \<and> singleLine (toFixed env x 2)"
  using assms toFixed_twoDecimals toFixed_singleLine
  by (cases x) (simp_all add: fixedNotation_def)

lemma csvRow_singleLine:
  assumes "plainFields r" "singleLine (fileName r)"
  shows "singleLine (csvRow env r)"
proof -
  have a: "singleLine (toFixed env (amount r) 2)" "singleLine (toFixed env (confidence r) 2)"
    using assms(1) fixedNotation_toFixed by (simp_all add: plainFields_def)
  show ?thesis
    using assms a unfolding csvRow_fields by (simp add: plainFields_def singleLine_def)
qed

lemma splitOn_single: "c \<notin> set l \<Longrightarrow> splitOn c l = [l]"
  by (induction l) auto

lemma splitOn_append: "c \<notin> set l \<Longrightarrow> splitOn c (l @ c # rest) = l # splitOn c rest"
  by (induction l) auto

lemma splitOn_joinWith:
  assumes "ls \<noteq> []" "\<forall>l \<in> set ls. c \<notin> set l"
  shows "splitOn c (joinWith [c] ls) = ls"
  using assms
proof (induction ls rule: induct_list012)
  case 1
  then show ?case by simp
next
  case (2 x)
  then show ?case by (simp add: splitOn_single)
next
  case (3 x y zs)
  then have "splitOn c (joinWith [c] (y # zs)) = y # zs" by simp
  moreover have "c \<notin> set x" using 3 by simp
  ultimately show ?case by (simp add: splitOn_append)
qed

lemma linesOf_csvContent:
  assumes "\<forall>r \<in> set receipts. plainFields r" "\<forall>r \<in> set receipts. singleLine (fileName r)"
  shows "linesOf (csvContent env receipts)
         = ''Date,Vendor,Amount,Category,File,Confidence'' # map (csvRow env) receipts"
proof -
  have "\<forall>l \<in> set (csvLines env receipts). CHR 0x0A \<notin> set l"
    using assms csvRow_singleLine [of _ env]
    by (auto simp: csvLines_def header_line singleLine_def)
  then have "splitOn (CHR 0x0A) (joinWith [CHR 0x0A] (csvLines env receipts)) = csvLines env receipts"
    by (intro splitOn_joinWith) (simp_all add: csvLines_def)
  then show ?thesis by (simp add: linesOf_def csvContent_def csvLines_def header_line)
qed

section \<open>The records of the mock generator\<close>

text \<open>
  What the generator fills in holds no line feed and prints in fixed notation, and its
  vendors are not names inherited from \<open>Object.prototype\<close>.
\<close>

lemma generator_names:
  "list_all (\<lambda>v. v \<notin> set objectPrototypeNames \<and> singleLine v
                 \<and> singleLine (getRandomCategory v)) vendors"
  by code_simp

lemma toISODate_singleLine: "singleLine (toISODate t)"
  by (simp add: singleLine_def toISODate_def Let_def padStart_digitsOf_singleLine)

lemma generator_ranges:
  "5 \<le> a \<Longrightarrow> a \<le> 205 \<Longrightarrow> fixedNotation (Fin a)"
  "7 / 10 \<le> c \<Longrightarrow> c \<le> 1 \<Longrightarrow> fixedNotation (Fin c)"
  by (simp_all add: fixedNotation_def)

lemma generated_plainFields:
  assumes "vendor r \<in> set vendors" "category r = getRandomCategory (vendor r)"
    and "date r = toISODate t"
    and "amount r = Fin a" "5 \<le> a" "a \<le> 205"
    and "confidence r = Fin c" "7 / 10 \<le> c" "c \<le> 1"
  shows "plainFields r \<and> vendor r \<notin> set objectPrototypeNames"
  using assms generator_names toISODate_singleLine [of t] generator_ranges(1) [of a]
    generator_ranges(2) [of c]
  by (simp add: plainFields_def list_all_iff)

section \<open>The collation of the examples\<close>

lemma compareCodeUnits_antisym:
  "(compareCodeUnits a b < 0) = (0 < compareCodeUnits b a)"
  by (induction a b rule: compareCodeUnits.induct) auto

lemma compareCodeUnits_Cons_le:
  "(compareCodeUnits (x # xs) (y # ys) \<le> 0) =
     ((of_char x :: nat) < of_char y \<or> ((of_char x :: nat) = of_char y \<and> compareCodeUnits xs ys \<le> 0))"
  by auto

lemma compareCodeUnits_trans:
  "compareCodeUnits a b \<le> 0 \<Longrightarrow> compareCodeUnits b c \<le> 0 \<Longrightarrow> compareCodeUnits a c \<le> 0"
proof (induction a arbitrary: b c)
  case Nil
  then show ?case by (cases c) simp_all
next
  case (Cons x xs)
  from Cons.prems(1) obtain y ys where b: "b = y # ys" by (cases b) auto
  from Cons.prems(2) b obtain z zs where c: "c = z # zs" by (cases c) auto
  from Cons.prems(1) b
  have 1: "(of_char x :: nat) < of_char y \<or> ((of_char x :: nat) = of_char y \<and> compareCodeUnits xs ys \<le> 0)"
    by (simp only: compareCodeUnits_Cons_le)
  from Cons.prems(2) b c
  have 2: "(of_char y :: nat) < of_char z \<or> ((of_char y :: nat) = of_char z \<and> compareCodeUnits ys zs \<le> 0)"
    by (simp only: compareCodeUnits_Cons_le)
  from 1 2 have "(of_char x :: nat) < of_char z \<or> ((of_char x :: nat) = of_char z \<and> compareCodeUnits xs zs \<le> 0)"
    using Cons.IH [of ys zs] by (metis less_trans)
  then show ?case unfolding c by (simp only: compareCodeUnits_Cons_le)
qed

lemma consistentCollation_sampleEnv: "consistentCollation sampleEnv"
proof -
  have l: "localeCompare sampleEnv = compareCodeUnits" by (simp add: sampleEnv_def)
  show ?thesis
    unfolding consistentCollation_def l
    using compareCodeUnits_antisym compareCodeUnits_trans by blast
qed

section \<open>The filtered and sorted view of the table\<close>

text \<open>
  The structure of the view, for every record set that satisfies the invariants of the
  data model, in a locale whose collation is consistent: the view holds the records that
  the four predicates of the code keep, each as often as the record set holds it, ordered
  by the chosen key in the chosen direction. With no active filter the view is a
  permutation of the record set; with only the category filter set to dining it holds
  exactly the records whose category is dining.
\<close>

lemma view_filter_then_sort:
  assumes "list_all (wellFormed env) receipts" and "consistentCollation env"
  shows "mset (filteredAndSortedReceipts env now st receipts)
           = mset (filter (\<lambda>r. matchesSearch env st r \<and> matchesCategory st r
                               \<and> matchesDate env now st r \<and> matchesAmount env st r) receipts)
       \<and> orderedBy env (sortField st) (sortDirection st)
            (filteredAndSortedReceipts env now st receipts)
       \<and> mset (filteredAndSortedReceipts env now
                 \<lparr>searchTerm = [], categoryFilter = ''all'', dateFilter = ''all'',
                  sortField = f, sortDirection = d, amountMin = [], amountMax = []\<rparr> receipts)
           = mset receipts
       \<and> mset (filteredAndSortedReceipts env now
                 \<lparr>searchTerm = [], categoryFilter = ''dining'', dateFilter = ''all'',
                  sortField = f, sortDirection = d, amountMin = [], amountMax = []\<rparr> receipts)
           = mset (filter (\<lambda>r. category r = ''dining'') receipts)"
proof -
  have wf: "\<forall>r \<in> set (filter (matchesAll env now st) receipts). wellFormed env r"
    using assms(1) by (simp add: list_all_iff)
  have 1: "mset (filteredAndSortedReceipts env now st receipts)
           = mset (filter (\<lambda>r. matchesSearch env st r \<and> matchesCategory st r
                               \<and> matchesDate env now st r \<and> matchesAmount env st r) receipts)"
    by (simp add: filteredAndSortedReceipts_def Let_def mset_sortWith matchesAll_def [abs_def])
  have 2: "orderedBy env (sortField st) (sortDirection st)
            (filteredAndSortedReceipts env now st receipts)"
    unfolding filteredAndSortedReceipts_def Let_def
    by (rule ordered_sortWith_compareFn [OF wf assms(2)])
  have 3: "mset (filteredAndSortedReceipts env now
                 \<lparr>searchTerm = [], categoryFilter = ''all'', dateFilter = ''all'',
                  sortField = f, sortDirection = d, amountMin = [], amountMax = []\<rparr> receipts)
           = mset receipts"
    by (simp add: filteredAndSortedReceipts_def Let_def mset_sortWith matchesAll_def [abs_def]
        matchesSearch_def matchesCategory_def matchesDate_def matchesAmount_def)
  have 4: "mset (filteredAndSortedReceipts env now
                 \<lparr>searchTerm = [], categoryFilter = ''dining'', dateFilter = ''all'',
                  sortField = f, sortDirection = d, amountMin = [], amountMax = []\<rparr> receipts)
           = mset (filter (\<lambda>r. category r = ''dining'') receipts)"
    by (simp add: filteredAndSortedReceipts_def Let_def mset_sortWith matchesAll_def [abs_def]
        matchesSearch_def matchesCategory_def matchesDate_def matchesAmount_def)
  from 1 2 3 4 show ?thesis by blast
qed

lemma tableSample_wellFormed: "list_all (wellFormed sampleEnv) tableSample"
  by code_simp

lemma tableSample_view:
  "filteredAndSortedReceipts sampleEnv sampleNow sampleTable tableSample
   = [sampleReceipt ''Shell'' ''transportation'' ''2024-03-01'' 30,
      sampleReceipt ''Costco'' ''groceries'' ''2024-01-05'' 20,
      sampleReceipt ''Starbucks'' ''dining'' ''2024-02-10'' 10]"
  by code_simp

lemma januaryFirst_reads_as_december:
  "newDate sampleEnv (date januaryFirst) = Some 1704067200000
   \<and> getFullYear sampleEnv (newDate sampleEnv (date januaryFirst)) = Some 2023
   \<and> getMonth sampleEnv (newDate sampleEnv (date januaryFirst)) = Some 11
   \<and> DateFromTime (LocalTime sampleEnv 1704067200000) = 31"
  by code_simp

text \<open>
  Claim C1, at an input where the code departs from it (the defect of claim C4). The
  browser is five hours behind UTC; it is 15 March 2024 there. The record set holds one
  record, dated 2024-01-01, a date of the current calendar year, and the only active
  filter is the date window of the current year. \<open>new Date\<close> reads the date-only
  string as midnight UTC, which is 19:00 of 31 December 2023 in local time, and
  \<open>getFullYear\<close> answers in local time: the view is empty, although the record
  satisfies every active predicate. With the date window off, the view holds the record.
\<close>

theorem this_year_behind_utc:
  "filteredAndSortedReceipts sampleEnv sampleNow thisYearTable [januaryFirst] = []
   \<and> filteredAndSortedReceipts sampleEnv sampleNow (thisYearTable\<lparr>dateFilter := ''all''\<rparr>)
        [januaryFirst] = [januaryFirst]
   \<and> date januaryFirst = ''2024-01-01''
   \<and> YearFromTime (LocalTime sampleEnv sampleNow) = 2024
   \<and> getFullYear sampleEnv (newDate sampleEnv (date januaryFirst)) = Some 2023"
  by code_simp

section \<open>The average and the total\<close>

text \<open>
  Claim C2, as amended. The empty record set gives the snapshot whose counts, totals,
  average, median and month sums are zero, whose top vendor is empty and whose breakdown
  and trend are empty, without an error. For a non-empty record set the average is the
  double-precision quotient of the total by the count, and the double-precision product
  of the average and the count differs from the total by at most the total times
  \<open>2 ^ - 51\<close>, provided the total is zero or the total and the average lie in
  the range of normal doubles (the total at most \<open>2 ^ 1023\<close> and the average at
  least \<open>2 ^ - 1021\<close> in magnitude).
\<close>

theorem average_within_rounding:
  assumes "receipts \<noteq> []" and "sumAmounts receipts = Fin t"
    and "t = 0 \<or> (pow2 (- 1021) * of_nat (length receipts) \<le> \<bar>t\<bar> \<and> \<bar>t\<bar> \<le> pow2 1023)"
  shows "stats env now []
           = Inr \<lparr>totalReceipts = 0, totalAmount = Fin 0, averageAmount = Fin 0,
                  medianAmount = Fin 0, topVendor = [], currentMonthSpend = Fin 0,
                  lastMonthSpend = Fin 0, categoryBreakdown = [], monthlyTrend = []\<rparr>
       \<and> (\<exists>s p. stats env now receipts = Inr s
              \<and> totalReceipts s = length receipts
              \<and> totalAmount s = Fin t
              \<and> averageAmount s = fdiv (totalAmount s) (Fin (of_nat (totalReceipts s)))
              \<and> fmul (averageAmount s) (Fin (of_nat (totalReceipts s))) = Fin p
              \<and> \<bar>p - t\<bar> \<le> \<bar>t\<bar> * pow2 (- 51))"
proof -
  have empty: "stats env now []
           = Inr \<lparr>totalReceipts = 0, totalAmount = Fin 0, averageAmount = Fin 0,
                  medianAmount = Fin 0, topVendor = [], currentMonthSpend = Fin 0,
                  lastMonthSpend = Fin 0, categoryBreakdown = [], monthlyTrend = []\<rparr>"
    by (simp add: stats_def)
  let ?n = "length receipts"
  have n: "0 < ?n" using assms(1) by simp
  then have n0: "(of_nat ?n :: rat) \<noteq> 0" by simp
  obtain med where s: "stats env now receipts =
       Inr \<lparr>totalReceipts = length receipts, totalAmount = sumAmounts receipts,
            averageAmount = fdiv (sumAmounts receipts) (Fin (of_nat (length receipts))),
            medianAmount = med,
            topVendor = computeTopVendor receipts,
            currentMonthSpend = monthSpend env receipts (MonthFromTime (LocalTime env now))
                                  (YearFromTime (LocalTime env now)),
            lastMonthSpend = monthSpend env receipts
               (if MonthFromTime (LocalTime env now) = 0 then 11
                else MonthFromTime (LocalTime env now) - 1)
               (if MonthFromTime (LocalTime env now) = 0 then YearFromTime (LocalTime env now) - 1
                else YearFromTime (LocalTime env now)),
            categoryBreakdown = computeBreakdown receipts,
            monthlyTrend = computeTrend env now receipts\<rparr>"
    using stats_nonempty [OF assms(1), of env now] by blast
  have "\<exists>a p. toNumber (t / of_nat ?n) = Fin a \<and> toNumber (a * of_nat ?n) = Fin p
               \<and> \<bar>p - t\<bar> \<le> \<bar>t\<bar> * pow2 (- 51)"
  proof (cases "t = 0")
    case True
    then show ?thesis by (simp add: toNumber_def)
  next
    case False
    then show ?thesis using assms(3) average_times_count [OF n, of t] by blast
  qed
  then obtain a p where ap: "toNumber (t / of_nat ?n) = Fin a" "toNumber (a * of_nat ?n) = Fin p"
    "\<bar>p - t\<bar> \<le> \<bar>t\<bar> * pow2 (- 51)" by blast
  have "\<exists>s p. stats env now receipts = Inr s
              \<and> totalReceipts s = length receipts
              \<and> totalAmount s = Fin t
              \<and> averageAmount s = fdiv (totalAmount s) (Fin (of_nat (totalReceipts s)))
              \<and> fmul (averageAmount s) (Fin (of_nat (totalReceipts s))) = Fin p
              \<and> \<bar>p - t\<bar> \<le> \<bar>t\<bar> * pow2 (- 51)"
    using ap n0 by (simp add: s assms(2))
  with empty show ?thesis by blast
qed

lemma sevenReceipts_sum: "sumAmounts sevenReceipts = Fin 58"
  by code_simp

lemma sevenReceipts_length: "length sevenReceipts = 7"
  by (simp add: sevenReceipts_def)

lemma sevenReceipts_average:
  "fdiv (Fin 58) (Fin 7) = Fin (4664442471205157 / 562949953421312)"
  by code_simp

lemma sevenReceipts_product:
  "fmul (Fin (4664442471205157 / 562949953421312)) (Fin 7)
   = Fin (8162774324609025 / 140737488355328)"
  by code_simp

theorem average_within_rounding_witness:
  "sevenReceipts \<noteq> [] \<and> sumAmounts sevenReceipts = Fin 58
   \<and> pow2 (- 1021) * of_nat (length sevenReceipts) \<le> \<bar>58\<bar> \<and> \<bar>58 :: rat\<bar> \<le> pow2 1023
   \<and> (\<exists>s p. stats sampleEnv sampleNow sevenReceipts = Inr s
          \<and> fmul (averageAmount s) (Fin (of_nat (totalReceipts s))) = Fin p
          \<and> \<bar>p - 58\<bar> \<le> \<bar>58\<bar> * pow2 (- 51))"
proof -
  have ne: "sevenReceipts \<noteq> []" by (simp add: sevenReceipts_def)
  have "pow2 (- 1021) \<le> pow2 0" by (rule pow2_mono) simp
  then have "pow2 (- 1021) * 7 \<le> 1 * 7" by (intro mult_right_mono) simp_all
  then have lo: "pow2 (- 1021) * of_nat (length sevenReceipts) \<le> \<bar>58\<bar>"
    by (simp add: sevenReceipts_length)
  have "pow2 6 \<le> pow2 1023" by (rule pow2_mono) simp
  moreover have "pow2 6 = 64" by (simp add: pow2_def)
  ultimately have hi: "\<bar>58 :: rat\<bar> \<le> pow2 1023" by simp
  have rng: "(58 :: rat) = 0 \<or> (pow2 (- 1021) * of_nat (length sevenReceipts) \<le> \<bar>58\<bar>
      \<and> \<bar>58 :: rat\<bar> \<le> pow2 1023)"
    using lo hi by blast
  from average_within_rounding [OF ne sevenReceipts_sum rng, of sampleEnv sampleNow]
  have "\<exists>s p. stats sampleEnv sampleNow sevenReceipts = Inr s
          \<and> fmul (averageAmount s) (Fin (of_nat (totalReceipts s))) = Fin p
          \<and> \<bar>p - 58\<bar> \<le> \<bar>58\<bar> * pow2 (- 51)"
    by blast
  with ne sevenReceipts_sum lo hi show ?thesis by blast
qed

text \<open>
  The product is not always the total itself: for seven records whose amounts are 10 and
  six times 8, the total is 58, the average is the double nearest to 58 / 7, and seven
  times the average is the double above 58.
\<close>

theorem average_times_count_counterexample:
  "(case stats sampleEnv sampleNow sevenReceipts of
      Inl e \<Rightarrow> False
    | Inr s \<Rightarrow> totalReceipts s = 7 \<and> totalAmount s = Fin 58
        \<and> averageAmount s = Fin (4664442471205157 / 562949953421312)
        \<and> fmul (averageAmount s) (Fin (of_nat (totalReceipts s)))
            = Fin (8162774324609025 / 140737488355328)
        \<and> fmul (averageAmount s) (Fin (of_nat (totalReceipts s))) \<noteq> totalAmount s)"
proof -
  have ne: "sevenReceipts \<noteq> []" by (simp add: sevenReceipts_def)
  obtain med where s: "stats sampleEnv sampleNow sevenReceipts =
       Inr \<lparr>totalReceipts = length sevenReceipts, totalAmount = sumAmounts sevenReceipts,
            averageAmount = fdiv (sumAmounts sevenReceipts) (Fin (of_nat (length sevenReceipts))),
            medianAmount = med,
            topVendor = computeTopVendor sevenReceipts,
            currentMonthSpend = monthSpend sampleEnv sevenReceipts
               (MonthFromTime (LocalTime sampleEnv sampleNow))
               (YearFromTime (LocalTime sampleEnv sampleNow)),
            lastMonthSpend = monthSpend sampleEnv sevenReceipts
               (if MonthFromTime (LocalTime sampleEnv sampleNow) = 0 then 11
                else MonthFromTime (LocalTime sampleEnv sampleNow) - 1)
               (if MonthFromTime (LocalTime sampleEnv sampleNow) = 0
                then YearFromTime (LocalTime sampleEnv sampleNow) - 1
                else YearFromTime (LocalTime sampleEnv sampleNow)),
            categoryBreakdown = computeBreakdown sevenReceipts,
            monthlyTrend = computeTrend sampleEnv sampleNow sevenReceipts\<rparr>"
    using stats_nonempty [OF ne, of sampleEnv sampleNow] by blast
  have avg: "fdiv (sumAmounts sevenReceipts) (Fin (of_nat (length sevenReceipts)))
      = Fin (4664442471205157 / 562949953421312)"
    unfolding sevenReceipts_sum sevenReceipts_length of_nat_numeral
    by (rule sevenReceipts_average)
  note s1 = s [unfolded avg]
  note s2 = s1 [unfolded sevenReceipts_sum sevenReceipts_length]
  show ?thesis
    unfolding s2
    by (simp only: sum.case ReceiptStats.select_convs of_nat_numeral sevenReceipts_product) simp
qed

section \<open>The median amount\<close>





section \<open>The spend of the current and of the last month\<close>

lemma sampleNow_local:
  "MonthFromTime (LocalTime sampleEnv sampleNow) = 2
   \<and> YearFromTime (LocalTime sampleEnv sampleNow) = 2024
   \<and> DateFromTime (LocalTime sampleEnv sampleNow) = 15"
  by code_simp

lemma marchFirst_reads_as_february:
  "newDate sampleEnv (date marchFirst) = Some 1709251200000
   \<and> getMonth sampleEnv (newDate sampleEnv (date marchFirst)) = Some 1
   \<and> getFullYear sampleEnv (newDate sampleEnv (date marchFirst)) = Some 2024
   \<and> DateFromTime (LocalTime sampleEnv 1709251200000) = 29"
  by code_simp

lemma marchFirst_current:
  "monthSpend sampleEnv [marchFirst] 2 2024 = Fin 0"
  by code_simp

lemma marchFirst_last:
  "monthSpend sampleEnv [marchFirst] 1 2024 = Fin 10"
  by code_simp

text \<open>
  Claim C4, at an input where the code departs from it. The browser is five hours behind
  UTC; it is 15 March 2024 there. The one record is dated 2024-03-01, a date of the
  current calendar month. \<open>new Date\<close> reads the date-only string as midnight UTC,
  which is 19:00 of 29 February in local time, and \<open>getMonth\<close> answers in local
  time: the record is left out of the spend of the current month and counted in the
  spend of the last month.
\<close>

theorem month_spend_behind_utc:
  "(case stats sampleEnv sampleNow [marchFirst] of
      Inl e \<Rightarrow> False
    | Inr s \<Rightarrow> currentMonthSpend s = Fin 0 \<and> lastMonthSpend s = Fin 10)
   \<and> date marchFirst = ''2024-03-01'' \<and> amount marchFirst = Fin 10
   \<and> MonthFromTime (LocalTime sampleEnv sampleNow) = 2
   \<and> YearFromTime (LocalTime sampleEnv sampleNow) = 2024"
proof -
  obtain med where s: "stats sampleEnv sampleNow [marchFirst] =
       Inr \<lparr>totalReceipts = length [marchFirst], totalAmount = sumAmounts [marchFirst],
            averageAmount = fdiv (sumAmounts [marchFirst]) (Fin (of_nat (length [marchFirst]))),
            medianAmount = med,
            topVendor = computeTopVendor [marchFirst],
            currentMonthSpend = monthSpend sampleEnv [marchFirst]
               (MonthFromTime (LocalTime sampleEnv sampleNow))
               (YearFromTime (LocalTime sampleEnv sampleNow)),
            lastMonthSpend = monthSpend sampleEnv [marchFirst]
               (if MonthFromTime (LocalTime sampleEnv sampleNow) = 0 then 11
                else MonthFromTime (LocalTime sampleEnv sampleNow) - 1)
               (if MonthFromTime (LocalTime sampleEnv sampleNow) = 0
                then YearFromTime (LocalTime sampleEnv sampleNow) - 1
                else YearFromTime (LocalTime sampleEnv sampleNow)),
            categoryBreakdown = computeBreakdown [marchFirst],
            monthlyTrend = computeTrend sampleEnv sampleNow [marchFirst]\<rparr>"
    using stats_nonempty [of "[marchFirst]" sampleEnv sampleNow] by blast
  have m: "MonthFromTime (LocalTime sampleEnv sampleNow) = 2"
    and y: "YearFromTime (LocalTime sampleEnv sampleNow) = 2024"
    using sampleNow_local by blast+
  have l: "(if (2 :: int) = 0 then 11 else 2 - 1) = (1 :: int)"
    "(if (2 :: int) = 0 then 2024 - 1 else (2024 :: int)) = 2024" by simp_all
  note s1 = s [unfolded m y l marchFirst_current marchFirst_last]
  have d: "date marchFirst = ''2024-03-01''" "amount marchFirst = Fin 10"
    by (simp_all add: marchFirst_def sampleReceipt_def)
  show ?thesis
    unfolding s1 by (simp only: sum.case ReceiptStats.select_convs m y d; simp)
qed

lemma marchFirst_trend:
  "computeTrend sampleEnv sampleNow [marchFirst]
   = [(''Oct 2023'', Fin 0), (''Nov 2023'', Fin 0), (''Dec 2023'', Fin 0),
      (''Jan 2024'', Fin 0), (''Feb 2024'', Fin 10), (''Mar 2024'', Fin 0)]"
  by code_simp

section \<open>The six-month trend\<close>

text \<open>
  Claim C5, at an input where the code departs from it (the defect of claim C4). In the
  browser five hours behind UTC, on 15 March 2024, the trend of the one record dated
  2024-03-01 has its six points, October 2023 to March 2024 in order, each with its
  label; but the amount of the record is summed into February 2024, and March 2024,
  the month of its date, reports zero.
\<close>

theorem trend_behind_utc:
  "(case stats sampleEnv sampleNow [marchFirst] of
      Inl e \<Rightarrow> False
    | Inr s \<Rightarrow> monthlyTrend s
        = [(''Oct 2023'', Fin 0), (''Nov 2023'', Fin 0), (''Dec 2023'', Fin 0),
           (''Jan 2024'', Fin 0), (''Feb 2024'', Fin 10), (''Mar 2024'', Fin 0)])
   \<and> date marchFirst = ''2024-03-01''"
proof -
  obtain med where s: "stats sampleEnv sampleNow [marchFirst] =
       Inr \<lparr>totalReceipts = length [marchFirst], totalAmount = sumAmounts [marchFirst],
            averageAmount = fdiv (sumAmounts [marchFirst]) (Fin (of_nat (length [marchFirst]))),
            medianAmount = med,
            topVendor = computeTopVendor [marchFirst],
            currentMonthSpend = monthSpend sampleEnv [marchFirst]
               (MonthFromTime (LocalTime sampleEnv sampleNow))
               (YearFromTime (LocalTime sampleEnv sampleNow)),
            lastMonthSpend = monthSpend sampleEnv [marchFirst]
               (if MonthFromTime (LocalTime sampleEnv sampleNow) = 0 then 11
                else MonthFromTime (LocalTime sampleEnv sampleNow) - 1)
               (if MonthFromTime (LocalTime sampleEnv sampleNow) = 0
                then YearFromTime (LocalTime sampleEnv sampleNow) - 1
                else YearFromTime (LocalTime sampleEnv sampleNow)),
            categoryBreakdown = computeBreakdown [marchFirst],
            monthlyTrend = computeTrend sampleEnv sampleNow [marchFirst]\<rparr>"
    using stats_nonempty [of "[marchFirst]" sampleEnv sampleNow] by blast
  note s1 = s [unfolded marchFirst_trend]
  have d: "date marchFirst = ''2024-03-01''"
    by (simp add: marchFirst_def sampleReceipt_def)
  show ?thesis
    unfolding s1 by (simp only: sum.case ReceiptStats.select_convs d; simp)
qed

section \<open>The top vendor\<close>

text \<open>
  Claim C6. For every non-empty record set of fewer than \<open>2 ^ 32\<close> records (the bound
  of an array) whose vendors are not names that a plain object inherits from
  \<open>Object.prototype\<close> (the generator draws the vendor from \<open>vendors\<close>, which holds no
  such name), the statistics are computed without an error, and the top vendor is a vendor
  of the record set that occurs at least as often as every vendor. It is the value of
  \<open>computeTopVendor\<close> on the record set, whatever the runtime and the time: the same
  record set always yields the same top vendor.
\<close>

theorem top_vendor_most_frequent:
  assumes "receipts \<noteq> []" and "length receipts < 2 ^ 32"
    and "\<forall>r \<in> set receipts. vendor r \<notin> set objectPrototypeNames"
  shows "\<exists>s. stats env now receipts = Inr s
            \<and> topVendor s = computeTopVendor receipts
            \<and> topVendor s \<in> vendor ` set receipts
            \<and> (\<forall>w. count_list (map vendor receipts) w
                     \<le> count_list (map vendor receipts) (topVendor s))"
proof -
  obtain med where s: "stats env now receipts =
       Inr \<lparr>totalReceipts = length receipts, totalAmount = sumAmounts receipts,
            averageAmount = fdiv (sumAmounts receipts) (Fin (of_nat (length receipts))),
            medianAmount = med,
            topVendor = computeTopVendor receipts,
            currentMonthSpend = monthSpend env receipts (MonthFromTime (LocalTime env now))
                                  (YearFromTime (LocalTime env now)),
            lastMonthSpend = monthSpend env receipts
               (if MonthFromTime (LocalTime env now) = 0 then 11
                else MonthFromTime (LocalTime env now) - 1)
               (if MonthFromTime (LocalTime env now) = 0 then YearFromTime (LocalTime env now) - 1
                else YearFromTime (LocalTime env now)),
            categoryBreakdown = computeBreakdown receipts,
            monthlyTrend = computeTrend env now receipts\<rparr>"
    using stats_nonempty [OF assms(1), of env now] by blast
  show ?thesis
    using computeTopVendor_most_frequent [OF assms(1) assms(3) assms(2)] by (simp add: s)
qed

lemma vendorSample_generated:
  "list_all (\<lambda>r. vendor r \<in> set vendors) vendorSample
   \<and> list_all (\<lambda>r. vendor r \<notin> set objectPrototypeNames) vendorSample"
  by code_simp

lemma vendorSample_top: "computeTopVendor vendorSample = ''Target''"
  by code_simp

theorem top_vendor_most_frequent_witness:
  "vendorSample \<noteq> [] \<and> length vendorSample < 2 ^ 32
   \<and> list_all (\<lambda>r. vendor r \<notin> set objectPrototypeNames) vendorSample
   \<and> (\<exists>s. stats sampleEnv sampleNow vendorSample = Inr s \<and> topVendor s = ''Target''
           \<and> count_list (map vendor vendorSample) ''Shell''
               \<le> count_list (map vendor vendorSample) (topVendor s))"
proof -
  have ne: "vendorSample \<noteq> []" and len: "length vendorSample < 2 ^ 32"
    by (simp_all add: vendorSample_def)
  have own: "\<forall>r \<in> set vendorSample. vendor r \<notin> set objectPrototypeNames"
    using vendorSample_generated by (simp add: list_all_iff)
  obtain s where s: "stats sampleEnv sampleNow vendorSample = Inr s"
      "topVendor s = computeTopVendor vendorSample"
      "\<forall>w. count_list (map vendor vendorSample) w
             \<le> count_list (map vendor vendorSample) (topVendor s)"
    using top_vendor_most_frequent [OF ne len own, of sampleEnv sampleNow] by blast
  have "topVendor s = ''Target''" using s(2) vendorSample_top by simp
  with s(1) s(3) ne len vendorSample_generated show ?thesis by blast
qed

section \<open>The exported CSV text\<close>

text \<open>
  Claim C7, as amended. For every non-empty record set whose file names hold no line feed
  (the other fields being as the generator fills them), the export downloads the CSV
  text and leaves the record set as it is. The newline-separated lines of the text are
  the header Date,Vendor,Amount,Category,File,Confidence followed by one line per record
  of the record set, in its order; the line of a record is the date, the vendor in double
  quotes, the amount, the category, the file name in double quotes and the confidence,
  joined by commas, the amount and the confidence printed with exactly two decimals.
  The text of a record set of one record has exactly two lines, and the amount 5 is
  printed 5.00.
\<close>

theorem export_csv_lines:
  assumes "receipts \<noteq> []"
    and "\<forall>r \<in> set receipts. plainFields r"
    and "\<forall>r \<in> set receipts. singleLine (fileName r)"
  shows "handleExport env now receipts
           = (receipts,
              [Download (''receipt-data-'' @ toISODate now @ ''.csv'') (csvContent env receipts),
               ShowToast \<lparr>title = ''Export successful'',
                          description = ''Receipt data has been downloaded as CSV.'',
                          variant = Default\<rparr>])
       \<and> linesOf (csvContent env receipts)
           = ''Date,Vendor,Amount,Category,File,Confidence'' # map (csvRow env) receipts
       \<and> (\<forall>r \<in> set receipts.
             csvRow env r
               = date r @ '','' @ [CHR 0x22] @ vendor r @ [CHR 0x22] @ '',''
                 @ toFixed env (amount r) 2 @ '','' @ category r @ '',''
                 @ [CHR 0x22] @ fileName r @ [CHR 0x22] @ '','' @ toFixed env (confidence r) 2
             \<and> twoDecimals (toFixed env (amount r) 2)
             \<and> twoDecimals (toFixed env (confidence r) 2))
       \<and> (\<forall>r. receipts = [r]
             \<longrightarrow> linesOf (csvContent env receipts)
                   = [''Date,Vendor,Amount,Category,File,Confidence'', csvRow env r])
       \<and> toFixed env (Fin 5) 2 = ''5.00''"
proof -
  have 1: "handleExport env now receipts
           = (receipts,
              [Download (''receipt-data-'' @ toISODate now @ ''.csv'') (csvContent env receipts),
               ShowToast \<lparr>title = ''Export successful'',
                          description = ''Receipt data has been downloaded as CSV.'',
                          variant = Default\<rparr>])"
    using assms(1) by (simp add: handleExport_def)
  have 2: "linesOf (csvContent env receipts)
           = ''Date,Vendor,Amount,Category,File,Confidence'' # map (csvRow env) receipts"
    by (rule linesOf_csvContent [OF assms(2,3)])
  have 3: "\<forall>r \<in> set receipts.
             csvRow env r
               = date r @ '','' @ [CHR 0x22] @ vendor r @ [CHR 0x22] @ '',''
                 @ toFixed env (amount r) 2 @ '','' @ category r @ '',''
                 @ [CHR 0x22] @ fileName r @ [CHR 0x22] @ '','' @ toFixed env (confidence r) 2
             \<and> twoDecimals (toFixed env (amount r) 2)
             \<and> twoDecimals (toFixed env (confidence r) 2)"
  proof
    fix r assume "r \<in> set receipts"
    then have "plainFields r" using assms(2) by blast
    then have "twoDecimals (toFixed env (amount r) 2)" "twoDecimals (toFixed env (confidence r) 2)"
      using fixedNotation_toFixed by (simp_all add: plainFields_def)
    then show "csvRow env r
               = date r @ '','' @ [CHR 0x22] @ vendor r @ [CHR 0x22] @ '',''
                 @ toFixed env (amount r) 2 @ '','' @ category r @ '',''
                 @ [CHR 0x22] @ fileName r @ [CHR 0x22] @ '','' @ toFixed env (confidence r) 2
             \<and> twoDecimals (toFixed env (amount r) 2)
             \<and> twoDecimals (toFixed env (confidence r) 2)"
      using csvRow_fields [of env r] by blast
  qed
  have 4: "\<forall>r. receipts = [r]
             \<longrightarrow> linesOf (csvContent env receipts)
                   = [''Date,Vendor,Amount,Category,File,Confidence'', csvRow env r]"
  proof (intro allI impI)
    fix r assume r: "receipts = [r]"
    show "linesOf (csvContent env receipts)
          = [''Date,Vendor,Amount,Category,File,Confidence'', csvRow env r]"
      unfolding 2 unfolding r by (simp only: list.map)
  qed
  from 1 2 3 4 toFixed_5 [of env] show ?thesis by blast
qed

lemma tableSample_plain:
  "list_all plainFields tableSample \<and> list_all (\<lambda>r. singleLine (fileName r)) tableSample"
  by code_simp

theorem export_csv_lines_witness:
  "tableSample \<noteq> [] \<and> list_all plainFields tableSample
   \<and> list_all (\<lambda>r. singleLine (fileName r)) tableSample
   \<and> linesOf (csvContent sampleEnv tableSample)
       = ''Date,Vendor,Amount,Category,File,Confidence'' # map (csvRow sampleEnv) tableSample
   \<and> length (linesOf (csvContent sampleEnv tableSample)) = 4"
proof -
  have ne: "tableSample \<noteq> []" by (simp add: tableSample_def)
  have p: "\<forall>r \<in> set tableSample. plainFields r"
    and f: "\<forall>r \<in> set tableSample. singleLine (fileName r)"
    using tableSample_plain by (simp_all add: list_all_iff)
  note t = export_csv_lines [OF ne p f, of sampleEnv sampleNow]
  from t have l: "linesOf (csvContent sampleEnv tableSample)
       = ''Date,Vendor,Amount,Category,File,Confidence'' # map (csvRow sampleEnv) tableSample"
    by blast
  have n: "length (linesOf (csvContent sampleEnv tableSample)) = 4"
    unfolding l by (simp add: tableSample_def)
  from ne tableSample_plain l n show ?thesis by blast
qed

text \<open>
  The file name of a record is the name of the uploaded file, which may hold a line
  feed: the upload accepts the file, and the text exported for the one record has three
  lines.
\<close>

theorem export_line_feed_counterexample:
  "rejection lineFeedFile = None
   \<and> plainFields lineFeedName
   \<and> linesOf (csvContent sampleEnv [lineFeedName])
       = [''Date,Vendor,Amount,Category,File,Confidence'',
          ''2024-03-01,'' @ [CHR 0x22] @ ''Shell'' @ [CHR 0x22] @ '',10.00,transportation,''
            @ [CHR 0x22] @ ''march'',
          ''.png'' @ [CHR 0x22] @ '',0.75'']
   \<and> length (linesOf (csvContent sampleEnv [lineFeedName])) = 3"
proof -
  have "rejection lineFeedFile = None"
    by (simp add: rejection_def lineFeedFile_def allowedTypes_def)
  moreover have "plainFields lineFeedName"
    by code_simp
  moreover have "linesOf (csvContent sampleEnv [lineFeedName])
       = [''Date,Vendor,Amount,Category,File,Confidence'',
          ''2024-03-01,'' @ [CHR 0x22] @ ''Shell'' @ [CHR 0x22] @ '',10.00,transportation,''
            @ [CHR 0x22] @ ''march'',
          ''.png'' @ [CHR 0x22] @ '',0.75'']"
    by code_simp
  moreover have "length (linesOf (csvContent sampleEnv [lineFeedName])) = 3"
    by code_simp
  ultimately show ?thesis by blast
qed

section \<open>The last point of the trend\<close>

text \<open>
  For every non-empty record set, at a time whose local year is not one of the years 0 to
  99 (which \<open>new Date(year, month, 1)\<close> reads as 1900 to 1999), the statistics are
  computed without an error, the trend has six points, and the amount of the sixth and
  last one is the spend of the current month.
\<close>

lemma trend_last_is_current_month_spend:
  assumes "receipts \<noteq> []" and "YearFromTime (LocalTime env now) \<notin> {0..99}"
  shows "\<exists>s. stats env now receipts = Inr s \<and> length (monthlyTrend s) = 6
            \<and> snd (monthlyTrend s ! 5) = currentMonthSpend s
            \<and> snd (last (monthlyTrend s)) = currentMonthSpend s"
proof -
  obtain med where s: "stats env now receipts =
       Inr \<lparr>totalReceipts = length receipts, totalAmount = sumAmounts receipts,
            averageAmount = fdiv (sumAmounts receipts) (Fin (of_nat (length receipts))),
            medianAmount = med,
            topVendor = computeTopVendor receipts,
            currentMonthSpend = monthSpend env receipts (MonthFromTime (LocalTime env now))
                                  (YearFromTime (LocalTime env now)),
            lastMonthSpend = monthSpend env receipts
               (if MonthFromTime (LocalTime env now) = 0 then 11
                else MonthFromTime (LocalTime env now) - 1)
               (if MonthFromTime (LocalTime env now) = 0 then YearFromTime (LocalTime env now) - 1
                else YearFromTime (LocalTime env now)),
            categoryBreakdown = computeBreakdown receipts,
            monthlyTrend = computeTrend env now receipts\<rparr>"
    using stats_nonempty [OF assms(1), of env now] by blast
  have yr: "\<not> (0 \<le> YearFromTime (LocalTime env now) \<and> YearFromTime (LocalTime env now) \<le> 99)"
    using assms(2) by simp
  have len: "length (computeTrend env now receipts) = 6" by (rule computeTrend_length)
  then have ne: "computeTrend env now receipts \<noteq> []" by auto
  have l: "last (computeTrend env now receipts) = computeTrend env now receipts ! 5"
    using ne len by (simp add: last_conv_nth)
  show ?thesis
    using computeTrend_last [OF yr, of receipts] len l by (simp add: s)
qed

text \<open>
  Claim C10, at an input where the code departs from it (the defect of claim C4). In the
  browser five hours behind UTC, on 15 March 2024, the record set holds one record of
  amount 10 dated 2024-03-01, a date of the current month. The last point of the trend,
  labelled Mar 2024, and the spend of the current month are equal, but both are zero:
  neither is the sum of the amounts of the records dated in the current month, which
  is 10.
\<close>

theorem trend_last_behind_utc:
  "(case stats sampleEnv sampleNow [marchFirst] of
      Inl e \<Rightarrow> False
    | Inr s \<Rightarrow> last (monthlyTrend s) = (''Mar 2024'', Fin 0) \<and> currentMonthSpend s = Fin 0
               \<and> snd (last (monthlyTrend s)) = currentMonthSpend s)
   \<and> date marchFirst = ''2024-03-01'' \<and> amount marchFirst = Fin 10
   \<and> MonthFromTime (LocalTime sampleEnv sampleNow) = 2
   \<and> YearFromTime (LocalTime sampleEnv sampleNow) = 2024"
proof -
  obtain med where s: "stats sampleEnv sampleNow [marchFirst] =
       Inr \<lparr>totalReceipts = length [marchFirst], totalAmount = sumAmounts [marchFirst],
            averageAmount = fdiv (sumAmounts [marchFirst]) (Fin (of_nat (length [marchFirst]))),
            medianAmount = med,
            topVendor = computeTopVendor [marchFirst],
            currentMonthSpend = monthSpend sampleEnv [marchFirst]
               (MonthFromTime (LocalTime sampleEnv sampleNow))
               (YearFromTime (LocalTime sampleEnv sampleNow)),
            lastMonthSpend = monthSpend sampleEnv [marchFirst]
               (if MonthFromTime (LocalTime sampleEnv sampleNow) = 0 then 11
                else MonthFromTime (LocalTime sampleEnv sampleNow) - 1)
               (if MonthFromTime (LocalTime sampleEnv sampleNow) = 0
                then YearFromTime (LocalTime sampleEnv sampleNow) - 1
                else YearFromTime (LocalTime sampleEnv sampleNow)),
            categoryBreakdown = computeBreakdown [marchFirst],
            monthlyTrend = computeTrend sampleEnv sampleNow [marchFirst]\<rparr>"
    using stats_nonempty [of "[marchFirst]" sampleEnv sampleNow] by blast
  have m: "MonthFromTime (LocalTime sampleEnv sampleNow) = 2"
    and y: "YearFromTime (LocalTime sampleEnv sampleNow) = 2024"
    using sampleNow_local by blast+
  note s1 = s [unfolded m y marchFirst_current marchFirst_trend]
  have d: "date marchFirst = ''2024-03-01''" "amount marchFirst = Fin 10"
    by (simp_all add: marchFirst_def sampleReceipt_def)
  show ?thesis
    unfolding s1 by (simp only: sum.case ReceiptStats.select_convs m y d; simp)
qed

section \<open>Upload validation: the accepted files and the notices\<close>

lemma rejection_None_iff:
  "(rejection f = None) =
     (file_type f \<in> {''image/jpeg'', ''image/png'', ''application/pdf'', ''text/plain''}
      \<and> file_size f \<le> 10485760)"
  by (simp add: rejection_def allowedTypes_def)

lemma map_filter_rejection:
  "List.map_filter rejection fs =
     map (\<lambda>f. the (rejection f)) (filter (\<lambda>f. rejection f \<noteq> None) fs)"
  by (induction fs) (auto simp: List.map_filter_def)

text \<open>
  Claim C9. A file of a batch is accepted exactly when its type is one of image/jpeg,
  image/png, application/pdf and text/plain and its size is at most 10 MB
  (10 * 1024 * 1024 bytes); the accepted files of the batch are appended to the selection
  in their order, whatever else the batch holds; every other file gets one notice of its
  own, in order. A zip file is rejected at any size and a JPEG of 15 MB is rejected.
\<close>

theorem upload_validation:
  "(rejection f = None) =
     (file_type f \<in> {''image/jpeg'', ''image/png'', ''application/pdf'', ''text/plain''}
      \<and> file_size f \<le> 10 * 1024 * 1024)
   \<and> fst (handleFiles files newFiles) = files @ filter (\<lambda>f. rejection f = None) newFiles
   \<and> length (snd (handleFiles files newFiles))
       = length (filter (\<lambda>f. rejection f \<noteq> None) newFiles)
   \<and> map variant (snd (handleFiles files newFiles))
       = map (\<lambda>f. Destructive) (filter (\<lambda>f. rejection f \<noteq> None) newFiles)
   \<and> map (take (length (file_name g)) \<circ> description) (snd (handleFiles files [g]))
       = (if rejection g = None then [] else [file_name g])
   \<and> handleFiles files (\<lparr>file_name = n, file_type = ''application/zip'', file_size = s\<rparr> # rest)
       = (files @ fst (handleFiles [] rest),
          \<lparr>title = ''Invalid file type'',
           description = n @
             '' is not a supported format. Please upload JPG, PNG, PDF, or TXT files.'',
           variant = Destructive\<rparr> # snd (handleFiles [] rest))
   \<and> handleFiles files
         (\<lparr>file_name = n, file_type = ''image/jpeg'', file_size = 15 * 1024 * 1024\<rparr> # rest)
       = (files @ fst (handleFiles [] rest),
          \<lparr>title = ''File too large'', description = n @ '' exceeds 10MB limit.'',
           variant = Destructive\<rparr> # snd (handleFiles [] rest))"
proof -
  have variants: "map variant (map (\<lambda>f. the (rejection f)) (filter (\<lambda>f. rejection f \<noteq> None) fs))
      = map (\<lambda>f. Destructive) (filter (\<lambda>f. rejection f \<noteq> None) fs)" for fs
    by (induction fs) (auto simp: rejection_def split: if_splits)
  have one: "map (take (length (file_name g)) \<circ> description) (List.map_filter rejection [g])
      = (if rejection g = None then [] else [file_name g])"
    by (simp add: List.map_filter_def rejection_def)
  show ?thesis
    using rejection_None_iff [of f] variants [of newFiles] one
    by (simp add: handleFiles_def map_filter_rejection)
       (simp add: rejection_def allowedTypes_def List.map_filter_def)
qed

section \<open>Export of an empty record set\<close>

text \<open>
  Claim C8. When the record set is empty, the export action shows the error notice and
  stops: nothing is downloaded (so no CSV text reaches the user) and the record set is
  the one it was.
\<close>

theorem export_empty_aborts:
  "handleExport env now [] =
     ([], [ShowToast \<lparr>title = ''No data to export'',
                      description = ''Upload some receipts first.'',
                      variant = Destructive\<rparr>])"
  by (simp add: handleExport_def)

end
